theory Spec2Isabelle
  imports Complex_Main
begin

section \<open>The operation scheduler (DP.next, TP.next)\<close>

text \<open>
  A database instance carries the number of the step that was drained last, the two phase
  flags (the source spells the first one \<open>$writting\<close>) and one pending queue per kind of
  operation.  \<open>inmemory\<close> stands for the lookup \<open>INMEMORY[this.name]\<close>; \<open>ready\<close> is only
  read by the table scheduler.  Jobs are opaque here: the scheduler only looks at whether
  a queue is empty and splices it out as a whole.
\<close>

record 'j db =
  step :: nat
  ready :: bool
  writting :: bool
  reading :: bool
  inmemory :: bool
  pending_reindex :: bool
  pending_drops :: bool
  pending_clear :: "'j list"
  pending_clean :: "'j list"
  pending_locks :: "'j list"
  pending_append :: "'j list"
  pending_update :: "'j list"
  pending_remove :: "'j list"
  pending_reader :: "'j list"
  pending_reader2 :: "'j list"
  pending_streamer :: "'j list"

text \<open>The phase functions that \<open>next\<close> can call.\<close>

datatype phase =
  Clear | ClearInmemory | Clean | Drop | Lock
  | Append | AppendInmemory | Update | UpdateInmemory | Remove | RemoveInmemory
  | Reader | Reader3 | Streamer

text \<open>
  What one call of \<open>next\<close> does: it returns at the first guard (\<open>Blocked\<close>), calls a
  phase function (\<open>Started\<close>), resets the step and schedules itself again
  (\<open>Rescheduled\<close>), or falls through the last test (\<open>Settled\<close>).  \<open>NoSuchMethod\<close> is the
  TypeError of \<open>TP.next\<close> calling \<open>this.$drop\<close>, which the table prototype does not define.
\<close>

datatype outcome = Blocked | Started phase | Rescheduled | Settled | NoSuchMethod

definition NEXTWAIT :: "nat \<Rightarrow> bool" where
  "NEXTWAIT k = (k = 7 \<or> k = 8 \<or> k = 9 \<or> k = 12 \<or> k = 13 \<or> k = 14)"

text \<open>
  \<open>DP.next\<close>.  Each phase function first stores its step number, then (its queue being
  non-empty, which \<open>next\<close> has just tested) raises its flag and splices its queue out; the
  state returned is the state after that synchronous prefix.  The in-memory variants of
  append, update, remove and reader do not raise a flag.
\<close>

definition next_DP :: "nat \<Rightarrow> 'j db \<Rightarrow> outcome \<times> 'j db" where
  "next_DP type s =
    (if type \<noteq> 0 \<and> NEXTWAIT (step s) then (Blocked, s)
     else if \<not> writting s \<and> \<not> reading s \<and> step s \<noteq> 12 \<and> pending_clear s \<noteq> [] then
       (Started (if inmemory s then ClearInmemory else Clear), s\<lparr>step := 12, pending_clear := []\<rparr>)
     else if \<not> writting s \<and> \<not> reading s \<and> step s \<noteq> 13 \<and> pending_clean s \<noteq> [] then
       (Started Clean, s\<lparr>step := 13, pending_clean := []\<rparr>)
     else if \<not> writting s \<and> \<not> reading s \<and> step s \<noteq> 7 \<and> \<not> pending_reindex s \<and> pending_drops s then
       (Started Drop, s\<lparr>step := 7, pending_drops := False\<rparr>)
     else if \<not> writting s \<and> \<not> reading s \<and> step s \<noteq> 14 \<and> pending_locks s \<noteq> [] then
       (Started Lock, s\<lparr>step := 14, pending_locks := []\<rparr>)
     else if \<not> writting s \<and> step s \<noteq> 1 \<and> \<not> pending_reindex s \<and> pending_append s \<noteq> [] then
       (if inmemory s then (Started AppendInmemory, s\<lparr>step := 1, pending_append := []\<rparr>)
        else (Started Append, s\<lparr>step := 1, writting := True, pending_append := []\<rparr>))
     else if \<not> writting s \<and> step s \<noteq> 2 \<and> pending_update s \<noteq> [] then
       (if inmemory s then (Started UpdateInmemory, s\<lparr>step := 2, pending_update := []\<rparr>)
        else (Started Update, s\<lparr>step := 2, writting := True, pending_update := []\<rparr>))
     else if \<not> writting s \<and> step s \<noteq> 3 \<and> pending_remove s \<noteq> [] then
       (if inmemory s then (Started RemoveInmemory, s\<lparr>step := 3, pending_remove := []\<rparr>)
        else (Started Remove, s\<lparr>step := 3, writting := True, pending_remove := []\<rparr>))
     else if \<not> reading s \<and> step s \<noteq> 4 \<and> pending_reader s \<noteq> [] then
       (if inmemory s then (Started Reader, s\<lparr>step := 4, pending_reader := []\<rparr>)
        else (Started Reader, s\<lparr>step := 4, reading := True, pending_reader := []\<rparr>))
     else if \<not> reading s \<and> step s \<noteq> 11 \<and> pending_reader2 s \<noteq> [] then
       (Started Reader3, s\<lparr>step := 11, reading := True, pending_reader2 := []\<rparr>)
     else if \<not> reading s \<and> step s \<noteq> 10 \<and> pending_streamer s \<noteq> [] then
       (Started Streamer, s\<lparr>step := 10, reading := True, pending_streamer := []\<rparr>)
     else if step s \<noteq> type then (Rescheduled, s\<lparr>step := 0\<rparr>)
     else (Settled, s))"

text \<open>
  \<open>TP.next\<close>: the same cascade behind the additional \<open>ready\<close> test, without in-memory
  variants.  A table has no \<open>$drop\<close>; the call in the third test would raise.
\<close>

definition next_TP :: "nat \<Rightarrow> 'j db \<Rightarrow> outcome \<times> 'j db" where
  "next_TP type s =
    (if \<not> ready s \<or> (type \<noteq> 0 \<and> NEXTWAIT (step s)) then (Blocked, s)
     else if \<not> writting s \<and> \<not> reading s \<and> step s \<noteq> 12 \<and> pending_clear s \<noteq> [] then
       (Started Clear, s\<lparr>step := 12, pending_clear := []\<rparr>)
     else if \<not> writting s \<and> \<not> reading s \<and> step s \<noteq> 13 \<and> pending_clean s \<noteq> [] then
       (Started Clean, s\<lparr>step := 13, pending_clean := []\<rparr>)
     else if \<not> writting s \<and> \<not> reading s \<and> step s \<noteq> 7 \<and> \<not> pending_reindex s \<and> pending_drops s then
       (NoSuchMethod, s)
     else if \<not> writting s \<and> \<not> reading s \<and> step s \<noteq> 14 \<and> pending_locks s \<noteq> [] then
       (Started Lock, s\<lparr>step := 14, pending_locks := []\<rparr>)
     else if \<not> writting s \<and> step s \<noteq> 1 \<and> \<not> pending_reindex s \<and> pending_append s \<noteq> [] then
       (Started Append, s\<lparr>step := 1, writting := True, pending_append := []\<rparr>)
     else if \<not> writting s \<and> step s \<noteq> 2 \<and> pending_update s \<noteq> [] then
       (Started Update, s\<lparr>step := 2, writting := True, pending_update := []\<rparr>)
     else if \<not> writting s \<and> step s \<noteq> 3 \<and> pending_remove s \<noteq> [] then
       (Started Remove, s\<lparr>step := 3, writting := True, pending_remove := []\<rparr>)
     else if \<not> reading s \<and> step s \<noteq> 4 \<and> pending_reader s \<noteq> [] then
       (Started Reader, s\<lparr>step := 4, reading := True, pending_reader := []\<rparr>)
     else if \<not> reading s \<and> step s \<noteq> 11 \<and> pending_reader2 s \<noteq> [] then
       (Started Reader3, s\<lparr>step := 11, reading := True, pending_reader2 := []\<rparr>)
     else if \<not> reading s \<and> step s \<noteq> 10 \<and> pending_streamer s \<noteq> [] then
       (Started Streamer, s\<lparr>step := 10, reading := True, pending_streamer := []\<rparr>)
     else if step s \<noteq> type then (Rescheduled, s\<lparr>step := 0\<rparr>)
     else (Settled, s))"

definition is_write_phase :: "outcome \<Rightarrow> bool" where
  "is_write_phase out = (out = Started Append \<or> out = Started AppendInmemory
     \<or> out = Started Update \<or> out = Started UpdateInmemory
     \<or> out = Started Remove \<or> out = Started RemoveInmemory)"

definition is_read_phase :: "outcome \<Rightarrow> bool" where
  "is_read_phase out = (out = Started Reader \<or> out = Started Reader3 \<or> out = Started Streamer)"

text \<open>An idle database with empty queues, used to build concrete states.\<close>

definition idle_db :: "nat db" where
  "idle_db = \<lparr>step = 0, ready = True, writting = False, reading = False, inmemory = False,
     pending_reindex = False, pending_drops = False, pending_clear = [], pending_clean = [],
     pending_locks = [], pending_append = [], pending_update = [], pending_remove = [],
     pending_reader = [], pending_reader2 = [], pending_streamer = []\<rparr>"

section \<open>Numbers and their decimal text\<close>

text \<open>
  Counters, years and table cells hold integers here; \<open>show_nat\<close> and \<open>show_int\<close> are the
  decimal text JavaScript produces for an integer (\<open>'' + n\<close>).
\<close>

definition digit_char :: "nat \<Rightarrow> char" where
  "digit_char d = (if d = 0 then CHR ''0'' else if d = 1 then CHR ''1'' else if d = 2 then CHR ''2''
     else if d = 3 then CHR ''3'' else if d = 4 then CHR ''4'' else if d = 5 then CHR ''5''
     else if d = 6 then CHR ''6'' else if d = 7 then CHR ''7'' else if d = 8 then CHR ''8''
     else CHR ''9'')"

function show_nat :: "nat \<Rightarrow> string" where
  "show_nat n = (if n < 10 then [digit_char n] else show_nat (n div 10) @ [digit_char (n mod 10)])"
  by pat_completeness auto
termination
  by (relation "measure (\<lambda>n. n)") auto

declare show_nat.simps [simp del]

definition show_int :: "int \<Rightarrow> string" where
  "show_int i = (if i < 0 then CHR ''-'' # show_nat (nat (- i)) else show_nat (nat i))"

section \<open>Modify jobs: sign prefixes (DP.modify, the modify branch of $update)\<close>

text \<open>
  Numeric field values.  JavaScript numbers are modelled as exact rationals together with
  the three special values; rounding and the sign of zero are not modelled.
\<close>

datatype num = Num rat | PosInf | NegInf | NaN

fun js_neg :: "num \<Rightarrow> num" where
  "js_neg (Num a) = Num (- a)"
| "js_neg PosInf = NegInf"
| "js_neg NegInf = PosInf"
| "js_neg NaN = NaN"

fun js_add :: "num \<Rightarrow> num \<Rightarrow> num" where
  "js_add (Num a) (Num b) = Num (a + b)"
| "js_add NaN _ = NaN"
| "js_add _ NaN = NaN"
| "js_add PosInf NegInf = NaN"
| "js_add NegInf PosInf = NaN"
| "js_add PosInf _ = PosInf"
| "js_add NegInf _ = NegInf"
| "js_add _ PosInf = PosInf"
| "js_add _ NegInf = NegInf"

definition js_sub :: "num \<Rightarrow> num \<Rightarrow> num" where
  "js_sub a b = js_add a (js_neg b)"

fun js_mul :: "num \<Rightarrow> num \<Rightarrow> num" where
  "js_mul (Num a) (Num b) = Num (a * b)"
| "js_mul NaN _ = NaN"
| "js_mul _ NaN = NaN"
| "js_mul (Num a) PosInf = (if a = 0 then NaN else if 0 < a then PosInf else NegInf)"
| "js_mul (Num a) NegInf = (if a = 0 then NaN else if 0 < a then NegInf else PosInf)"
| "js_mul PosInf (Num b) = (if b = 0 then NaN else if 0 < b then PosInf else NegInf)"
| "js_mul NegInf (Num b) = (if b = 0 then NaN else if 0 < b then NegInf else PosInf)"
| "js_mul PosInf PosInf = PosInf"
| "js_mul NegInf NegInf = PosInf"
| "js_mul PosInf NegInf = NegInf"
| "js_mul NegInf PosInf = NegInf"

fun js_div :: "num \<Rightarrow> num \<Rightarrow> num" where
  "js_div (Num a) (Num b) =
     (if b \<noteq> 0 then Num (a / b) else if a = 0 then NaN else if 0 < a then PosInf else NegInf)"
| "js_div NaN _ = NaN"
| "js_div _ NaN = NaN"
| "js_div (Num a) _ = Num 0"
| "js_div PosInf (Num b) = (if 0 \<le> b then PosInf else NegInf)"
| "js_div NegInf (Num b) = (if 0 \<le> b then NegInf else PosInf)"
| "js_div _ _ = NaN"

text \<open>\<open>output[key] || 0\<close>: a missing field, zero and NaN all become zero.\<close>

fun or_zero :: "num option \<Rightarrow> num" where
  "or_zero None = Num 0"
| "or_zero (Some NaN) = Num 0"
| "or_zero (Some v) = v"

text \<open>
  A value handed to \<open>modify\<close> is a number or a function of the old value and the
  document; a document maps field names to numbers, a missing field being \<open>undefined\<close>.
\<close>

type_synonym fields = "string \<Rightarrow> num option"

datatype mval = Val num | Fn "num option \<Rightarrow> fields \<Rightarrow> num option"

record modify_job =
  mdoc :: "string \<Rightarrow> mval option"
  mkeys :: "string list"
  minc :: "(string \<Rightarrow> char option) option"

definition is_sign :: "char \<Rightarrow> bool" where
  "is_sign c = (c = CHR ''+'' \<or> c = CHR ''-'' \<or> c = CHR ''*'' \<or> c = CHR ''/'')"

text \<open>
  The loop of \<open>DP.modify\<close> over \<open>Object.keys(data)\<close>: a key whose first character is a sign
  is renamed to the rest of the key, its sign is recorded in \<open>inc\<close>, and its value moves
  to the new name (the old name is set to \<open>undefined\<close>).
\<close>

fun modify_keys :: "string list \<Rightarrow> modify_job \<Rightarrow> modify_job" where
  "modify_keys [] job = job"
| "modify_keys (key # rest) job =
     (case key of
        c # tmp \<Rightarrow>
          (if is_sign c then
             modify_keys rest
               (job\<lparr>mdoc := (mdoc job)(tmp := mdoc job key, key := None),
                    mkeys := mkeys job @ [tmp],
                    minc := Some ((case minc job of None \<Rightarrow> (\<lambda>_. None) | Some m \<Rightarrow> m)(tmp \<mapsto> c))\<rparr>)
           else modify_keys rest (job\<lparr>mkeys := mkeys job @ [key]\<rparr>))
      | [] \<Rightarrow> modify_keys rest (job\<lparr>mkeys := mkeys job @ [key]\<rparr>))"

text \<open>
  \<open>DP.modify\<close> on the object given as its list of entries; no job is queued for an object
  without keys.
\<close>

definition modify :: "(string \<times> mval) list \<Rightarrow> modify_job option" where
  "modify data =
     (if data = [] then None
      else Some (modify_keys (map fst data) \<lparr>mdoc = map_of data, mkeys = [], minc = None\<rparr>))"

text \<open>
  The switch on \<open>item.inc[key]\<close> in \<open>DP.$update\<close> and \<open>TP.$update\<close>, case by case as the
  source has it.
\<close>

definition apply_inc :: "char \<Rightarrow> num option \<Rightarrow> num \<Rightarrow> num option" where
  "apply_inc sign old val =
     (if sign = CHR ''+'' then Some (js_add (or_zero old) val)
      else if sign = CHR ''-'' then Some (js_sub (or_zero old) val)
      else if sign = CHR ''*'' then Some (js_add (or_zero old) val)
      else if sign = CHR ''/'' then Some (js_div (or_zero old) val)
      else old)"

text \<open>The loop over \<open>item.keys\<close> applied to a matched document.\<close>

fun modify_output :: "modify_job \<Rightarrow> string list \<Rightarrow> fields \<Rightarrow> fields" where
  "modify_output job [] output = output"
| "modify_output job (key # rest) output =
     modify_output job rest
       (case mdoc job key of
          None \<Rightarrow> output
        | Some (Fn f) \<Rightarrow> output(key := f (output key) output)
        | Some (Val val) \<Rightarrow>
            (case (case minc job of None \<Rightarrow> None | Some m \<Rightarrow> m key) of
               Some sign \<Rightarrow> output(key := apply_inc sign (output key) val)
             | None \<Rightarrow> output(key \<mapsto> val)))"

definition update_modify :: "modify_job \<Rightarrow> fields \<Rightarrow> fields" where
  "update_modify job output = modify_output job (mkeys job) output"

section \<open>The counter cache (CP.empty, CP.min, CP.max, CP.hit)\<close>

text \<open>
  A cache entry is a number (under a \<open>sum\<close> key), a pair \<open>[min, max]\<close> (under an \<open>mma\<close> key),
  \<open>null\<close> (set by \<open>remove\<close>) or \<open>undefined\<close> (set by the flush).  An omitted \<open>count\<close>
  argument is \<open>None\<close>, so a pair can hold \<open>undefined\<close>.  \<open>CStr\<close> is the text JavaScript
  produces when \<open>+=\<close> meets a pair; the keys built by \<open>hit\<close>, \<open>min\<close> and \<open>max\<close> never lead
  there.  The cache object keeps its keys in insertion order, hence an association list;
  \<open>None\<close> is the state \<open>self.cache = null\<close>.
\<close>

datatype cval = CUndef | CNull | CNum int | CArr "int option" "int option" | CStr string

type_synonym cache = "(string \<times> cval) list option"

definition cache_get :: "cache \<Rightarrow> string \<Rightarrow> cval" where
  "cache_get c key = (case c of None \<Rightarrow> CUndef
     | Some al \<Rightarrow> (case map_of al key of None \<Rightarrow> CUndef | Some v \<Rightarrow> v))"

fun cache_upd :: "string \<Rightarrow> cval \<Rightarrow> (string \<times> cval) list \<Rightarrow> (string \<times> cval) list" where
  "cache_upd key v [] = [(key, v)]"
| "cache_upd key v (p # ps) = (if fst p = key then (key, v) # ps else p # cache_upd key v ps)"

definition cache_set :: "cache \<Rightarrow> string \<Rightarrow> cval \<Rightarrow> cache" where
  "cache_set c key v = Some (cache_upd key v (case c of None \<Rightarrow> [] | Some al \<Rightarrow> al))"

fun truthy :: "cval \<Rightarrow> bool" where
  "truthy CUndef = False"
| "truthy CNull = False"
| "truthy (CNum n) = (n \<noteq> 0)"
| "truthy (CArr a b) = True"
| "truthy (CStr t) = (t \<noteq> [])"

text \<open>Identifiers: a string, or an array whose elements are identifiers again.\<close>

datatype cid = Id string | Ids "cid list"

text \<open>\<open>CP.empty\<close>: the third character of the key decides between a number and a pair.\<close>

definition empty :: "string \<Rightarrow> int option \<Rightarrow> cache \<Rightarrow> cache" where
  "empty key val c =
     cache_set c key
       (if 2 < length key \<and> key ! 2 = CHR ''m''
        then (case val of None \<Rightarrow> CUndef | Some n \<Rightarrow> CNum n)
        else CArr val val)"

text \<open>Comparisons with \<open>undefined\<close> on either side are false.\<close>

fun js_gt :: "int option \<Rightarrow> int option \<Rightarrow> bool" where
  "js_gt (Some a) (Some b) = (b < a)"
| "js_gt _ _ = False"

definition js_lt :: "int option \<Rightarrow> int option \<Rightarrow> bool" where
  "js_lt a b = js_gt b a"

text \<open>The update of an existing truthy entry in \<open>min\<close> and \<open>max\<close>.\<close>

fun minmax_upd :: "cval \<Rightarrow> int option \<Rightarrow> cval" where
  "minmax_upd (CArr a b) count =
     CArr (if js_gt a count then count else a) (if js_lt b count then count else b)"
| "minmax_upd v count = v"

text \<open>
  \<open>CP.min\<close> at the year \<open>NOW.getFullYear()\<close>.  The timer that schedules the flush and the
  emitted events are left out.
\<close>

fun cmin :: "nat \<Rightarrow> cid \<Rightarrow> int option \<Rightarrow> cache \<Rightarrow> cache" where
  "cmin year (Ids ids) count c = fold (\<lambda>e. cmin year e count) ids c"
| "cmin year (Id s) count c =
     (let key = ''mma'' @ show_nat year @ s in
      if c = None \<or> \<not> truthy (cache_get c key) then empty key count c
      else cache_set c key (minmax_upd (cache_get c key) count))"

text \<open>\<open>CP.max\<close>: its array branch calls \<open>self.min\<close>; the rest repeats the body of \<open>min\<close>.\<close>

fun cmax :: "nat \<Rightarrow> cid \<Rightarrow> int option \<Rightarrow> cache \<Rightarrow> cache" where
  "cmax year (Ids ids) count c = fold (\<lambda>e. cmin year e count) ids c"
| "cmax year (Id s) count c =
     (let key = ''mma'' @ show_nat year @ s in
      if c = None \<or> \<not> truthy (cache_get c key) then empty key count c
      else cache_set c key (minmax_upd (cache_get c key) count))"

text \<open>
  What one call \<open>min(id, count)\<close> makes of the entry under the \<open>mma\<close> key of \<open>id\<close>: a missing
  (falsy) entry becomes the pair \<open>[count, count]\<close>, any other entry is updated in place.
\<close>

definition mma_step :: "int option \<Rightarrow> cval \<Rightarrow> cval" where
  "mma_step count v = (if \<not> truthy v then CArr count count else minmax_upd v count)"

text \<open>\<open>count || 1\<close>.\<close>

fun or_one :: "int option \<Rightarrow> int" where
  "or_one None = 1"
| "or_one (Some n) = (if n = 0 then 1 else n)"

definition show_opt :: "int option \<Rightarrow> string" where
  "show_opt a = (case a of None \<Rightarrow> [] | Some n \<Rightarrow> show_int n)"

text \<open>\<open>self.cache[key] += n\<close>.\<close>

fun plus_assign :: "cval \<Rightarrow> int \<Rightarrow> cval" where
  "plus_assign (CNum a) n = CNum (a + n)"
| "plus_assign (CArr a b) n = CStr (show_opt a @ '','' @ show_opt b @ show_int n)"
| "plus_assign (CStr t) n = CStr (t @ show_int n)"
| "plus_assign v n = v"

text \<open>\<open>CP.hit\<close> (also published as \<open>CP.inc\<close>): its array branch calls \<open>self.min\<close> as well.\<close>

fun hit :: "nat \<Rightarrow> cid \<Rightarrow> int option \<Rightarrow> cache \<Rightarrow> cache" where
  "hit year (Ids ids) count c = fold (\<lambda>e. cmin year e count) ids c"
| "hit year (Id s) count c =
     (let key = ''sum'' @ show_nat year @ s in
      if c = None \<or> \<not> truthy (cache_get c key) then empty key (Some (or_one count)) c
      else cache_set c key (plus_assign (cache_get c key) (or_one count)))"

section \<open>The append path (DP.$append)\<close>

definition NEWLINE :: string where
  "NEWLINE = [CHR 0x0A]"

definition endsWith :: "string \<Rightarrow> string \<Rightarrow> bool" where
  "endsWith s suffix = (length suffix \<le> length s \<and> drop (length s - length suffix) s = suffix)"

text \<open>
  \<open>JSONBUFFER\<close>, computed once from the arguments of the process: 20, or 40 when one of
  them ends with \<open>nosqlworker.js\<close>.
\<close>

definition JSONBUFFER :: "string list \<Rightarrow> nat" where
  "JSONBUFFER argv = (if list_all (\<lambda>n. \<not> endsWith n ''nosqlworker.js'') argv then 20 else 40)"

text \<open>
  Modelled from the spec: \<open>Array.prototype.limit\<close> belongs to the framework's utilities,
  which are not part of the sources at hand.  The append path hands the pending jobs to
  it "in batches of up to \<open>JSONBUFFER\<close> records": consecutive slices of at most \<open>n\<close>
  elements, each passed to the callback after the previous one has called \<open>next\<close>.
\<close>

function limit :: "nat \<Rightarrow> 'a list \<Rightarrow> 'a list list" where
  "limit n xs = (if n = 0 \<or> xs = [] then [] else take n xs # limit n (drop n xs))"
  by pat_completeness auto
termination
  by (relation "measure (\<lambda>(n, xs). length xs)") auto

declare limit.simps [simp del]

text \<open>
  A pending append holds the encoded document and its builder, of which only the
  callback matters here (\<open>None\<close>: no callback).  The state of a pass is the data file, the
  data of the \<open>Fs.appendFile\<close> calls made so far, and the callback invocations
  \<open>(callback, err, count)\<close> made so far.
\<close>

record append_job =
  job_doc :: string
  job_callback :: "nat option"

record 'e append_state =
  data_file :: string
  appended :: "string list"
  invoked :: "(nat \<times> 'e option \<times> nat) list"

text \<open>
  One batch: the lines are concatenated, appended with one call, and then every job of
  the batch has its callback invoked with \<open>(err, 1)\<close>.  \<open>err\<close> is the outcome of the call; a
  failed call is taken to leave the file as it was.
\<close>

definition append_batch :: "'e option \<Rightarrow> append_job list \<Rightarrow> 'e append_state \<Rightarrow> 'e append_state" where
  "append_batch err items st =
     (let json = concat (map (\<lambda>i. job_doc i @ NEWLINE) items) in
      st\<lparr>data_file := (if err = None then data_file st @ json else data_file st),
         appended := appended st @ [json],
         invoked := invoked st @
           concat (map (\<lambda>i. case job_callback i of None \<Rightarrow> [] | Some cb \<Rightarrow> [(cb, err, 1)]) items)\<rparr>)"

fun append_batches :: "(nat \<Rightarrow> 'e option) \<Rightarrow> nat \<Rightarrow> append_job list list \<Rightarrow> 'e append_state \<Rightarrow> 'e append_state" where
  "append_batches errs k [] st = st"
| "append_batches errs k (items # rest) st = append_batches errs (Suc k) rest (append_batch (errs k) items st)"

text \<open>
  \<open>DP.$append\<close> on a non-empty queue: the whole queue is spliced out and handed to
  \<open>limit\<close>; \<open>errs k\<close> is the outcome of the \<open>k\<close>-th \<open>appendFile\<close> call.
\<close>

definition append_pass :: "string list \<Rightarrow> (nat \<Rightarrow> 'e option) \<Rightarrow> append_job list \<Rightarrow> 'e append_state \<Rightarrow> 'e append_state" where
  "append_pass argv errs pending st = append_batches errs 0 (limit (JSONBUFFER argv) pending) st"

definition callbacks_of :: "append_job list \<Rightarrow> nat list" where
  "callbacks_of items = concat (map (\<lambda>i. case job_callback i of None \<Rightarrow> [] | Some cb \<Rightarrow> [cb]) items)"

section \<open>Writing an updated document back (DP.$update, TP.$update)\<close>

text \<open>
  Text is held as its UTF-8 bytes, so \<open>Buffer.byteLength\<close> is the length of the list.
  The \<open>length\<close> of a JavaScript string counts UTF-16 code units: one for every character
  of up to three bytes, two for a character of four bytes; continuation bytes add nothing.
\<close>

definition units_of_byte :: "char \<Rightarrow> nat" where
  "units_of_byte c =
     (if (of_char c :: nat) < 128 then 1
      else if (of_char c :: nat) < 192 then 0
      else if (of_char c :: nat) < 240 then 1
      else 2)"

definition js_length :: "string \<Rightarrow> nat" where
  "js_length s = sum_list (map units_of_byte s)"

definition byteLength :: "string \<Rightarrow> nat" where
  "byteLength s = length s"

text \<open>
  \<open>s.substring(1)\<close> drops the first code unit: the first character when it has up to three
  bytes; of a four-byte character the second code unit stays behind, a lone surrogate,
  which is written out as the three bytes of the replacement character.
\<close>

definition substring1 :: "string \<Rightarrow> string" where
  "substring1 s =
     (case s of
        [] \<Rightarrow> []
      | c # cs \<Rightarrow>
          (if (of_char c :: nat) < 192 then cs
           else if (of_char c :: nat) < 224 then drop 1 cs
           else if (of_char c :: nat) < 240 then drop 2 cs
           else [CHR 0xEF, CHR 0xBF, CHR 0xBD] @ drop 3 cs))"

text \<open>
  An entry of \<open>fs.docsbuffer\<close>: the text of the line, its length in bytes and its byte
  offset in the file.
\<close>

record docsbuffer =
  rec_doc :: string
  rec_length :: nat
  rec_position :: nat

text \<open>The two write calls of an update session: \<open>fs.write(data, position)\<close> and \<open>fs.write2(data)\<close>.\<close>

datatype fs_call = Write string nat | Write2 string

text \<open>
  The tail of the loop body for a document that some job has changed: \<open>upd\<close> is the new
  encoding (\<open>JSON.stringify(doc).replace(REGBOOL, JSONBOOL)\<close> for documents,
  \<open>self.stringify(doc)\<close> for table rows).  An unchanged encoding writes nothing (\<open>continue\<close>);
  the in-place write needs the same number of code units and the same number of bytes;
  everything else rewrites the line with the removal character \<open>-\<close> in front (a literal
  in \<open>DP.$update\<close>, \<open>fs.remchar\<close> in \<open>TP.$update\<close>) and appends the new encoding.
\<close>

definition update_write :: "docsbuffer \<Rightarrow> string \<Rightarrow> fs_call list" where
  "update_write rec upd =
     (if upd = rec_doc rec then []
      else if js_length (rec_doc rec) = js_length upd \<and> rec_length rec = byteLength upd
        then [Write (upd @ NEWLINE) (rec_position rec)]
      else [Write (CHR ''-'' # substring1 (rec_doc rec) @ NEWLINE) (rec_position rec),
            Write2 (upd @ NEWLINE)])"

text \<open>
  Modelled from the spec: the stream class \<open>NoSQLStream\<close> is not part of the sources at
  hand.  Its \<open>write(bytes, position)\<close> is a "random in-place write" over the bytes at
  \<open>position\<close>, and \<open>write_append(bytes)\<close> (\<open>write2\<close>) an "append to end-of-file", which lands
  "past original EOF".
\<close>

fun fs_apply :: "fs_call \<Rightarrow> string \<Rightarrow> string" where
  "fs_apply (Write bytes position) f = take position f @ bytes @ drop (position + length bytes) f"
| "fs_apply (Write2 bytes) f = f @ bytes"

definition fs_run :: "fs_call list \<Rightarrow> string \<Rightarrow> string" where
  "fs_run calls f = fold fs_apply calls f"

section \<open>The JSON document encoder (DP.insert, DP.$update, DP.$save)\<close>

text \<open>
  JSON values as \<open>JSON.stringify\<close> sees them; numbers are integers here, and an object is
  the list of its fields in order.
\<close>

datatype json = JNull | JBool bool | JNum int | JStr string | JArr "json list"
  | JObj "(string \<times> json) list"

definition hex_char :: "nat \<Rightarrow> char" where
  "hex_char d = (if d < 10 then digit_char d else if d = 10 then CHR ''a'' else if d = 11 then CHR ''b''
     else if d = 12 then CHR ''c'' else if d = 13 then CHR ''d'' else if d = 14 then CHR ''e''
     else CHR ''f'')"

text \<open>The escapes of a string literal: quote, backslash and the control characters.\<close>

definition json_escape :: "char \<Rightarrow> string" where
  "json_escape c =
     (if c = CHR 0x22 then [CHR 0x5C, CHR 0x22]
      else if c = CHR 0x5C then [CHR 0x5C, CHR 0x5C]
      else if c = CHR 0x08 then [CHR 0x5C, CHR ''b'']
      else if c = CHR 0x0C then [CHR 0x5C, CHR ''f'']
      else if c = CHR 0x0A then [CHR 0x5C, CHR ''n'']
      else if c = CHR 0x0D then [CHR 0x5C, CHR ''r'']
      else if c = CHR 0x09 then [CHR 0x5C, CHR ''t'']
      else if (of_char c :: nat) < 32
        then [CHR 0x5C, CHR ''u'', CHR ''0'', CHR ''0'', hex_char (of_char c div 16), hex_char (of_char c mod 16)]
      else [c])"

definition json_quote :: "string \<Rightarrow> string" where
  "json_quote s = CHR 0x22 # concat (map json_escape s) @ [CHR 0x22]"

fun join :: "string \<Rightarrow> string list \<Rightarrow> string" where
  "join sep [] = []"
| "join sep [x] = x"
| "join sep (x # y # rest) = x @ sep @ join sep (y # rest)"

fun JSON_stringify :: "json \<Rightarrow> string" where
  "JSON_stringify JNull = ''null''"
| "JSON_stringify (JBool b) = (if b then ''true'' else ''false'')"
| "JSON_stringify (JNum n) = show_int n"
| "JSON_stringify (JStr s) = json_quote s"
| "JSON_stringify (JArr xs) = ''['' @ join '','' (map JSON_stringify xs) @ '']''"
| "JSON_stringify (JObj fs) =
     ''{'' @ join '','' (map (\<lambda>kv. json_quote (fst kv) @ '':'' @ JSON_stringify (snd kv)) fs) @ ''}''"

text \<open>
  \<open>REGBOOL\<close> is the pattern \<open>/":true/g\<close>, which matches its own text, and \<open>JSONBOOL\<close> the
  replacement; \<open>replace_REGBOOL\<close> is \<open>s.replace(REGBOOL, JSONBOOL)\<close>: every match, found from
  left to right, is replaced and the scan goes on behind it.
\<close>

definition REGBOOL :: string where
  \<open>REGBOOL = ''":true''\<close>

definition JSONBOOL :: string where
  \<open>JSONBOOL = ''":true ''\<close>

fun replace_REGBOOL :: "string \<Rightarrow> string" where
  "replace_REGBOOL [] = []"
| "replace_REGBOOL (c # cs) =
     (if take 6 (c # cs) = REGBOOL then JSONBOOL @ replace_REGBOOL (drop 5 cs)
      else c # replace_REGBOOL cs)"

text \<open>The line stored for a document: \<open>JSON.stringify(json).replace(REGBOOL, JSONBOOL)\<close>.\<close>

definition encode :: "json \<Rightarrow> string" where
  "encode d = replace_REGBOOL (JSON_stringify d)"

text \<open>
  \<open>toggle d d'\<close>: \<open>d'\<close> is \<open>d\<close> with one boolean field, at any depth, switched between \<open>true\<close>
  and \<open>false\<close>.  A field is a member of an object; an element of an array is not a field.
\<close>

inductive toggle :: "json \<Rightarrow> json \<Rightarrow> bool" where
  field: "toggle (JObj (xs @ (k, JBool b) # ys)) (JObj (xs @ (k, JBool (\<not> b)) # ys))"
| in_object: "toggle v v' \<Longrightarrow> toggle (JObj (xs @ (k, v) # ys)) (JObj (xs @ (k, v') # ys))"
| in_array: "toggle v v' \<Longrightarrow> toggle (JArr (xs @ v # ys)) (JArr (xs @ v' # ys))"

section \<open>The forward reader (DP.$reader2) and first()\<close>

text \<open>
  A join of a builder (an entry of \<open>self.$join\<close>), as far as \<open>$callback2\<close> and
  \<open>$callbackjoin\<close> look at it: the field the joined data is stored under, the field \<open>b\<close> of
  the response whose values are looked up, whether it is a scalar join (\<open>scalartype\<close>),
  and whether the builder of the join has \<open>first()\<close> set.
\<close>

record builder_join =
  j_field :: string
  j_b :: string
  j_scalartype :: bool
  j_builder_first :: bool

text \<open>
  The options of a query builder that the reader looks at.  \<open>take\<close> and \<open>skip\<close> are \<open>0\<close> when
  unset (the reader only tests them for truth); \<open>sort\<close> is \<open>undefined\<close>, \<open>null\<close> (set by
  \<open>random()\<close>) or the object \<open>{name, asc}\<close> built by \<open>sort(name, desc)\<close>.  With them go the two
  fields of the builder that \<open>$callback2\<close> and \<open>errorhandling\<close> read: \<open>$join\<close> (\<open>None\<close> for
  \<open>undefined\<close>, else the joins in the order of their keys) and \<open>$callback_emptyerror\<close>.
\<close>

datatype sort_opt = Unsorted | Random | Named string bool

record options =
  opt_first :: bool
  opt_take :: nat
  opt_skip :: nat
  opt_scalar :: "string option"
  opt_sort :: sort_opt
  opt_listing :: bool
  opt_join :: "builder_join list option"
  opt_emptyerror :: "string option"

text \<open>\<open>DatabaseBuilder.prototype.take\<close>, \<open>skip\<close> and \<open>first\<close>, as far as the options go.\<close>

definition builder_take :: "nat \<Rightarrow> options \<Rightarrow> options" where
  "builder_take n opt = opt\<lparr>opt_take := n\<rparr>"


definition builder_first :: "options \<Rightarrow> options" where
  "builder_first opt = builder_take 1 (opt\<lparr>opt_first := True\<rparr>)"

definition new_options :: options where
  "new_options = \<lparr>opt_first = False, opt_take = 0, opt_skip = 0, opt_scalar = None,
     opt_sort = Unsorted, opt_listing = False, opt_join = None, opt_emptyerror = None\<rparr>"

definition sort_set :: "options \<Rightarrow> bool" where
  "sort_set opt = (case opt_sort opt of Named n a \<Rightarrow> True | _ \<Rightarrow> False)"

definition sort_name :: "options \<Rightarrow> string" where
  "sort_name opt = (case opt_sort opt of Named n a \<Rightarrow> n | _ \<Rightarrow> [])"

definition sort_asc :: "options \<Rightarrow> bool" where
  "sort_asc opt = (case opt_sort opt of Named n a \<Rightarrow> a | _ \<Rightarrow> True)"

definition scalar_set :: "options \<Rightarrow> bool" where
  "scalar_set opt = (case opt_scalar opt of None \<Rightarrow> False | Some s \<Rightarrow> s \<noteq> [])"

definition scalar_case :: "options \<Rightarrow> bool" where
  "scalar_case opt = (case opt_scalar opt of None \<Rightarrow> False
     | Some s \<Rightarrow> s = ''count'' \<or> s = ''sum'' \<or> s = ''min'' \<or> s = ''max'' \<or> s = ''avg'' \<or> s = ''group'')"

text \<open>\<open>$inlinesort\<close> and \<open>$limit\<close>, as \<open>compile\<close> sets them.\<close>

definition inlinesort :: "options \<Rightarrow> bool" where
  "inlinesort opt = (opt_take opt \<noteq> 0 \<and> sort_set opt)"

definition builder_limit :: "options \<Rightarrow> nat" where
  "builder_limit opt = opt_take opt + opt_skip opt"

text \<open>
  What the reader takes from outside: the field access on documents and the JavaScript
  primitives used on field values by \<open>nosqlsortvalue\<close> (\<open>typeof\<close>, greater and less, truth,
  the collator \<open>COMPARER\<close>); \<open>Array.prototype.quicksort\<close> of the framework's utilities; and the
  six scalar aggregations, which update the pair \<open>(item.scalar, item.scalarcount)\<close>, here
  one value of type \<open>'sc\<close>.
\<close>

datatype js_type = TNumber | TString | TBoolean | TDate | TOther

record ('d, 'v, 'sc) js_env =
  e_field :: "'d \<Rightarrow> string \<Rightarrow> 'v"
  e_typeof :: "'v \<Rightarrow> js_type"
  e_gt :: "'v \<Rightarrow> 'v \<Rightarrow> bool"
  e_lt :: "'v \<Rightarrow> 'v \<Rightarrow> bool"
  e_truthy :: "'v \<Rightarrow> bool"
  e_COMPARER :: "'v \<Rightarrow> 'v \<Rightarrow> int"
  e_quicksort :: "string \<Rightarrow> bool \<Rightarrow> 'd list \<Rightarrow> 'd list"
  e_scalar :: "string \<Rightarrow> 'sc option \<Rightarrow> 'd \<Rightarrow> 'sc option"

text \<open>
  A pending reader: the builder's options, its compiled predicate (which answers with
  the projected document or nothing), and the running fields of the job.  \<open>counter\<close> is
  \<open>None\<close> for the jobs queued by \<open>one()\<close>, which leave it undefined.
\<close>

record ('d, 'sc) reader_item =
  builder :: options
  compare :: "'d \<Rightarrow> 'd option"
  it_count :: nat
  it_counter :: "nat option"
  it_type :: nat
  it_scalar :: "'sc option"
  it_response :: "'d list option"

definition nosqlsortvalue :: "('d, 'v, 'sc) js_env \<Rightarrow> 'v \<Rightarrow> 'v \<Rightarrow> bool \<Rightarrow> bool" where
  "nosqlsortvalue env a b asc =
     (case e_typeof env a of
        TNumber \<Rightarrow> (if asc then e_gt env a b else e_lt env a b)
      | TString \<Rightarrow> (if asc then e_COMPARER env a b = 1 else e_COMPARER env a b = - 1)
      | TBoolean \<Rightarrow> (if asc then e_truthy env a \<and> \<not> e_truthy env b else \<not> e_truthy env a \<and> e_truthy env b)
      | TDate \<Rightarrow> (if asc then e_gt env a b else e_lt env a b)
      | TOther \<Rightarrow> False)"

text \<open>
  The loop of \<open>nosqlresort\<close> from index \<open>beg\<close> on: at the first element that sorts behind
  the new document the rest is shifted by one place, the last element falls out, and
  the document takes the free place.
\<close>

fun resort_insert :: "('d \<Rightarrow> bool) \<Rightarrow> 'd \<Rightarrow> 'd list \<Rightarrow> 'd list option" where
  "resort_insert p doc [] = None"
| "resort_insert p doc (x # xs) =
     (if p x then Some (doc # butlast (x # xs)) else map_option ((#) x) (resort_insert p doc xs))"

definition nosqlresort :: "('d, 'v, 'sc) js_env \<Rightarrow> options \<Rightarrow> 'd list \<Rightarrow> 'd \<Rightarrow> 'd list" where
  "nosqlresort env opt arr doc =
     (let b = e_field env doc (sort_name opt);
          behind = (\<lambda>x. nosqlsortvalue env (e_field env x (sort_name opt)) b (sort_asc opt))
      in if arr = [] then arr
         else if \<not> behind (last arr) then arr
         else let tmp = length arr div 2;
                  beg = (if \<not> behind (arr ! tmp) then tmp + 1 else 0)
              in (case resort_insert behind doc (drop beg arr) of
                    None \<Rightarrow> arr
                  | Some r \<Rightarrow> take beg arr @ r))"

definition nosqlinlinesorter :: "('d, 'v, 'sc) js_env \<Rightarrow> options \<Rightarrow> 'd list option \<Rightarrow> 'd \<Rightarrow> 'd list" where
  "nosqlinlinesorter env opt response doc =
     (case response of
        None \<Rightarrow> [doc]
      | Some arr \<Rightarrow>
          (if length arr < builder_limit opt then
             (if builder_limit opt \<le> length arr + 1
              then e_quicksort env (sort_name opt) (sort_asc opt) (arr @ [doc])
              else arr @ [doc])
           else nosqlresort env opt arr doc))"

text \<open>
  The body of the inner loop for one document and one reader.  The second component
  tells whether the end of the body, the test \<open>if (first) return false\<close>, was reached
  (every \<open>continue\<close> skips it).
\<close>

definition reader_step :: "('d, 'v, 'sc) js_env \<Rightarrow> 'd \<Rightarrow> ('d, 'sc) reader_item \<Rightarrow> ('d, 'sc) reader_item \<times> bool" where
  "reader_step env json item =
     (case compare item json of
        None \<Rightarrow> (item, False)
      | Some output \<Rightarrow>
          (let opt = builder item;
               item1 = item\<lparr>it_count := it_count item + 1\<rparr>
           in if \<not> inlinesort opt \<and>
                 ((opt_skip opt \<noteq> 0 \<and> it_count item1 \<le> opt_skip opt)
                  \<or> (opt_take opt \<noteq> 0 \<and> (case it_counter item1 of None \<Rightarrow> False | Some c \<Rightarrow> opt_take opt \<le> c)))
              then (item1, False)
              else let item2 = item1\<lparr>it_counter := map_option Suc (it_counter item1)\<rparr>
                   in if it_type item2 \<noteq> 0 then (item2, False)
                      else if scalar_case opt
                        then (item2\<lparr>it_scalar := e_scalar env (the (opt_scalar opt)) (it_scalar item2) output\<rparr>, True)
                      else if inlinesort opt
                        then (item2\<lparr>it_response := Some (nosqlinlinesorter env opt (it_response item2) output)\<rparr>, True)
                      else (item2\<lparr>it_response := Some ((case it_response item2 of None \<Rightarrow> [] | Some r \<Rightarrow> r) @ [output])\<rparr>, True)))"

text \<open>
  The inner loop over the readers and the outer loop over the documents the stream
  delivers.  With \<open>first\<close> set, reaching the end of a body returns \<open>false\<close>, which stops
  the stream.
\<close>

fun readers_loop :: "('d, 'v, 'sc) js_env \<Rightarrow> bool \<Rightarrow> 'd \<Rightarrow> ('d, 'sc) reader_item list \<Rightarrow> ('d, 'sc) reader_item list \<times> bool" where
  "readers_loop env first json [] = ([], False)"
| "readers_loop env first json (item # rest) =
     (case reader_step env json item of
        (item', reached) \<Rightarrow>
          if first \<and> reached then (item' # rest, True)
          else (case readers_loop env first json rest of (rest', stop) \<Rightarrow> (item' # rest', stop)))"

fun ondocuments :: "('d, 'v, 'sc) js_env \<Rightarrow> bool \<Rightarrow> 'd list \<Rightarrow> ('d, 'sc) reader_item list \<Rightarrow> ('d, 'sc) reader_item list" where
  "ondocuments env first [] items = items"
| "ondocuments env first (json # docs) items =
     (case readers_loop env first json items of
        (items', stop) \<Rightarrow> if stop then items' else ondocuments env first docs items')"

text \<open>
  The flag \<open>first\<close> of the pass: every reader asks for the first match and none sorts, and
  there is at most one reader.
\<close>

definition first_flag :: "('d, 'sc) reader_item list \<Rightarrow> bool" where
  "first_flag items =
     (list_all (\<lambda>fil. \<not> (\<not> opt_first (builder fil) \<or> sort_set (builder fil))) items \<and> \<not> 1 < length items)"

text \<open>
  What a reader's callback receives as its response.  A listing carries \<open>skip\<close>, \<open>take\<close>,
  the count and the items, from which \<open>listing\<close> derives the page numbers.
\<close>

datatype ('d, 'sc) response =
  Undefined | Doc 'd | Docs "'d list" | Scalar "'sc option" | Listing nat nat nat "'d list" | Count nat

datatype js_error = TypeError

definition first_of :: "'d list option \<Rightarrow> ('d, 'sc) response" where
  "first_of response = (case response of None \<Rightarrow> Undefined | Some [] \<Rightarrow> Undefined | Some (x # xs) \<Rightarrow> Doc x)"

definition plain_output :: "('d, 'sc) reader_item \<Rightarrow> ('d, 'sc) response" where
  "plain_output item =
     (let opt = builder item in
      if opt_first opt then first_of (it_response item)
      else if opt_listing opt
        then Listing (opt_skip opt) (opt_take opt) (it_count item) (case it_response item of None \<Rightarrow> [] | Some r \<Rightarrow> r)
      else Docs (case it_response item of None \<Rightarrow> [] | Some r \<Rightarrow> r))"

definition deliver :: "('d, 'sc) reader_item \<Rightarrow> ('d, 'sc) response \<Rightarrow> ('d, 'sc) response" where
  "deliver item output = (if it_type item = 1 then Count (it_count item) else output)"

text \<open>
  The sorting and slicing of the buffered response in the completion callback.  An
  access to a missing response, and \<open>Array.prototype.sort\<close> called with the sort object
  for a sort without a name, raise a TypeError.
\<close>

definition sort_response :: "('d, 'v, 'sc) js_env \<Rightarrow> ('d, 'sc) reader_item \<Rightarrow> js_error + 'd list option" where
  "sort_response env item =
     (let opt = builder item in
      if it_count item = 0 then Inr (it_response item)
      else (case it_response item of
              None \<Rightarrow> Inl TypeError
            | Some r \<Rightarrow>
                if sort_name opt = [] then Inl TypeError
                else let r1 = (if \<not> inlinesort opt \<or> opt_take opt \<noteq> length r
                               then e_quicksort env (sort_name opt) (sort_asc opt) r else r)
                     in Inr (Some
                          (if opt_skip opt \<noteq> 0 \<and> opt_take opt \<noteq> 0 then take (opt_take opt) (drop (opt_skip opt) r1)
                           else if opt_skip opt \<noteq> 0 then drop (opt_skip opt) r1
                           else if \<not> inlinesort opt \<and> opt_take opt \<noteq> 0 then take (opt_take opt) r1
                           else r1))))"


text \<open>
  A small environment for concrete runs: documents are numbers, a document is its own
  field value, and \<open>quicksort\<close> sorts them.
\<close>

definition nat_env :: "(nat, nat, nat) js_env" where
  "nat_env = \<lparr>e_field = (\<lambda>d n. d), e_typeof = (\<lambda>v. TNumber), e_gt = (\<lambda>a b. b < a), e_lt = (\<lambda>a b. a < b),
     e_truthy = (\<lambda>v. v \<noteq> 0), e_COMPARER = (\<lambda>a b. if a < b then - 1 else if a = b then 0 else 1),
     e_quicksort = (\<lambda>n asc xs. if asc then sort xs else rev (sort xs)),
     e_scalar = (\<lambda>s acc d. Some (case acc of None \<Rightarrow> d | Some a \<Rightarrow> a + d))\<rparr>"

definition new_reader :: "options \<Rightarrow> ('d \<Rightarrow> 'd option) \<Rightarrow> ('d, 'sc) reader_item" where
  "new_reader opt cmp = \<lparr>builder = opt, compare = cmp, it_count = 0, it_counter = Some 0, it_type = 0,
     it_scalar = None, it_response = None\<rparr>"

text \<open>
  The output a reader has for its callback (\<open>fs.$callback\<close>): the aggregate of a scalar
  query, the first buffered document with \<open>first()\<close>, the listing or the buffered
  documents, after the sorting and slicing where the builder sorts.
\<close>

definition reader_output :: "('d, 'v, 'sc) js_env \<Rightarrow> ('d, 'sc) reader_item \<Rightarrow> js_error + ('d, 'sc) response" where
  "reader_output env item =
     (let opt = builder item in
      if scalar_set opt \<or> \<not> sort_set opt then
        Inr (if scalar_set opt then Scalar (it_scalar item) else plain_output item)
      else (case sort_response env item of
              Inl e \<Rightarrow> Inl e
            | Inr r \<Rightarrow> Inr (plain_output (item\<lparr>it_response := r\<rparr>))))"

text \<open>
  What the values of JavaScript are to the callback path: which field values are
  \<open>undefined\<close>, which aggregates are truthy, and whether the lookups that a join starts in
  another database answer.
\<close>

record ('v, 'sc) js_values =
  undefined_value :: "'v \<Rightarrow> bool"
  scalar_truthy :: "'sc \<Rightarrow> bool"
  lookups_answer :: bool

definition response_truthy :: "('v, 'sc) js_values \<Rightarrow> ('d, 'sc) response \<Rightarrow> bool" where
  "response_truthy J response =
     (case response of
        Undefined \<Rightarrow> False
      | Scalar None \<Rightarrow> False
      | Scalar (Some s) \<Rightarrow> scalar_truthy J s
      | Count n \<Rightarrow> n \<noteq> 0
      | _ \<Rightarrow> True)"

definition is_array :: "('d, 'sc) response \<Rightarrow> bool" where
  "is_array response = (case response of Docs ds \<Rightarrow> True | _ \<Rightarrow> False)"

definition array_length :: "('d, 'sc) response \<Rightarrow> nat" where
  "array_length response = (case response of Docs ds \<Rightarrow> length ds | _ \<Rightarrow> 0)"

text \<open>
  \<open>errorhandling(null, builder, response)\<close>: an error with the builder's text for an empty
  response (falsy, or an array without elements) when the builder has such a text.
\<close>

definition errorhandling :: "('v, 'sc) js_values \<Rightarrow> options \<Rightarrow> ('d, 'sc) response \<Rightarrow> string option" where
  "errorhandling J opt response =
     (if \<not> response_truthy J response \<or> (is_array response \<and> array_length response = 0)
      then (case opt_emptyerror opt of None \<Rightarrow> None | Some t \<Rightarrow> if t \<noteq> [] then Some t else None)
      else None)"

text \<open>
  \<open>unique\<close> in \<open>$callbackjoin\<close>: the values of the field \<open>b\<close> in the documents of the response
  that are not \<open>undefined\<close>, each once.  A count, an aggregate and a listing are taken to have
  no such field.
\<close>

definition join_values :: "('d, 'v, 'sc) js_env \<Rightarrow> ('v, 'sc) js_values \<Rightarrow> ('d, 'sc) response \<Rightarrow> string \<Rightarrow> 'v list" where
  "join_values env J response b =
     (case response of
        Docs ds \<Rightarrow> remdups (filter (\<lambda>v. \<not> undefined_value J v) (map (\<lambda>d. e_field env d b) ds))
      | Doc d \<Rightarrow> filter (\<lambda>v. \<not> undefined_value J v) [e_field env d b]
      | _ \<Rightarrow> [])"

text \<open>
  A scalar join starts one lookup per value and calls \<open>next\<close> when the last one has
  answered; without a value it never does.  A join that is not scalar and has no value
  sets its items to \<open>null\<close> when its builder has \<open>first()\<close> set, and to an empty array otherwise.
\<close>

definition join_stuck :: "('d, 'v, 'sc) js_env \<Rightarrow> ('v, 'sc) js_values \<Rightarrow> ('d, 'sc) response \<Rightarrow> builder_join \<Rightarrow> bool" where
  "join_stuck env J response j = (j_scalartype j \<and> join_values env J response (j_b j) = [])"

definition join_items_null :: "('d, 'v, 'sc) js_env \<Rightarrow> ('v, 'sc) js_values \<Rightarrow> ('d, 'sc) response \<Rightarrow> builder_join \<Rightarrow> bool" where
  "join_items_null env J response j =
     (\<not> j_scalartype j \<and> join_values env J response (j_b j) = [] \<and> j_builder_first j)"

text \<open>
  The loops of \<open>$callback2\<close> that store the joined data.  For an array they run over its
  documents, where \<open>findItem\<close> and \<open>findItems\<close> read the length of the items and raise a
  TypeError for \<open>null\<close>.  For any other truthy response the branch of a scalar join reads
  \<open>item[join.b]\<close>, and \<open>item\<close> is \<open>undefined\<close> there: a TypeError.
\<close>

definition merge_throws :: "('d, 'v, 'sc) js_env \<Rightarrow> ('v, 'sc) js_values \<Rightarrow> ('d, 'sc) response \<Rightarrow> builder_join list \<Rightarrow> bool" where
  "merge_throws env J response joins =
     (if is_array response
      then array_length response \<noteq> 0 \<and> list_ex (join_items_null env J response) joins
      else response_truthy J response
           \<and> list_ex (\<lambda>j. j_scalartype j \<or> join_items_null env J response j) joins)"

definition merged :: "('v, 'sc) js_values \<Rightarrow> ('d, 'sc) response \<Rightarrow> builder_join list \<Rightarrow> builder_join list" where
  "merged J response joins =
     (if (if is_array response then array_length response \<noteq> 0 else response_truthy J response)
      then joins else [])"

text \<open>
  What becomes of the callback of a query: \<open>Received err response count joins\<close> stands for
  the call \<open>self.$callback(err, response, count, repository)\<close>, where the documents of the
  response carry the data of \<open>joins\<close> under the fields of these joins; the callback is
  never called; or an error is raised before the call.
\<close>

datatype ('d, 'sc) received =
  Received "string option" "('d, 'sc) response" nat "builder_join list"
  | NotCalled
  | Thrown js_error

text \<open>
  \<open>DatabaseBuilder.prototype.$callback2\<close> with \<open>$callbackjoin\<close>.  With an error or without
  joins the callback is called at once.  Otherwise every join has to call \<open>next\<close> before
  the joined data is stored and the callback called (\<open>Object.keys(self.$join).wait\<close>, a
  utility of the framework, is taken to run the keys and then the final function).
\<close>

definition callback2 :: "('d, 'v, 'sc) js_env \<Rightarrow> ('v, 'sc) js_values \<Rightarrow> options \<Rightarrow> string option \<Rightarrow>
    ('d, 'sc) response \<Rightarrow> nat \<Rightarrow> ('d, 'sc) received" where
  "callback2 env J opt err response count =
     (case opt_join opt of
        None \<Rightarrow> Received err response count []
      | Some joins \<Rightarrow>
          if err \<noteq> None then Received err response count []
          else if list_ex (join_stuck env J response) joins then NotCalled
          else if \<not> lookups_answer J \<and> list_ex (\<lambda>j. join_values env J response (j_b j) \<noteq> []) joins
            then NotCalled
          else if merge_throws env J response joins then Thrown TypeError
          else Received None response count (merged J response joins))"

text \<open>
  The end of \<open>fs.$callback\<close> for one reader:
  \<open>builder.$callback2(errorhandling(null, builder, output), item.type === 1 ? item.count : output, item.count)\<close>.
\<close>

definition reader_callback :: "('d, 'v, 'sc) js_env \<Rightarrow> ('v, 'sc) js_values \<Rightarrow> ('d, 'sc) reader_item \<Rightarrow> ('d, 'sc) received" where
  "reader_callback env J item =
     (case reader_output env item of
        Inl e \<Rightarrow> Thrown e
      | Inr output \<Rightarrow>
          callback2 env J (builder item) (errorhandling J (builder item) output) (deliver item output) (it_count item))"

text \<open>
  \<open>DP.$reader2\<close> over the documents of the file, for the readers drained in one pass:
  what becomes of the callback of each.
\<close>

definition reader2_callbacks :: "('d, 'v, 'sc) js_env \<Rightarrow> ('v, 'sc) js_values \<Rightarrow> ('d, 'sc) reader_item list \<Rightarrow> 'd list \<Rightarrow>
    ('d, 'sc) received list" where
  "reader2_callbacks env J items docs = map (reader_callback env J) (ondocuments env (first_flag items) docs items)"




definition plain_values :: "(nat, nat) js_values" where
  "plain_values = \<lparr>undefined_value = (\<lambda>v. False), scalar_truthy = (\<lambda>s. s \<noteq> 0), lookups_answer = True\<rparr>"



section \<open>The table row codec (TP.stringify, TP.parseData)\<close>

text \<open>
  The values a row can hold in a column.  Numbers and the milliseconds of a date are
  integers; \<open>NaNv\<close> is \<open>NaN\<close> and \<open>InvalidDate\<close> the date object built from it; an object is a
  JSON value.
\<close>

datatype cell = Undef | Null | Str string | Number int | NaNv | Boolean bool | DateV int
  | InvalidDate | Obj json

datatype coltype = CString | CNumber | CBoolean | CDate | CObject

text \<open>
  The schema of a table as \<open>parseSchema\<close> leaves it: \<open>$keys\<close>, the column names in order, and
  \<open>$schema\<close>, which gives every name its type (1 to 5 in the source) and its position.
\<close>

record schema =
  s_keys :: "string list"
  s_schema :: "string \<Rightarrow> (coltype \<times> nat) option"

fun parseSchema_loop :: "nat \<Rightarrow> (string \<times> coltype) list \<Rightarrow> schema \<Rightarrow> schema" where
  "parseSchema_loop i [] S = S"
| "parseSchema_loop i ((name, type) # rest) S =
     parseSchema_loop (Suc i) rest (S\<lparr>s_keys := s_keys S @ [name], s_schema := (s_schema S)(name \<mapsto> (type, i))\<rparr>)"

text \<open>\<open>parseSchema\<close> on the columns \<open>name:type\<close>, given as pairs (the text of a column is not parsed here).\<close>

definition parseSchema :: "(string \<times> coltype) list \<Rightarrow> schema" where
  "parseSchema columns = parseSchema_loop 0 columns \<lparr>s_keys = [], s_schema = (\<lambda>k. None)\<rparr>"

text \<open>
  What the codec takes from outside JavaScript's core and from the framework's
  utilities: the text of a date and of an object (\<open>toString\<close>), the JSON text of a date,
  \<open>String.prototype.parseJSON\<close>, and the date a text in ISO form denotes.
\<close>

record js_text =
  date_toString :: "int \<Rightarrow> string"
  date_toJSON :: "int \<Rightarrow> string"
  obj_toString :: "json \<Rightarrow> string"
  parseJSON :: "string \<Rightarrow> cell"
  date_parse :: "string \<Rightarrow> cell"

text \<open>Truth of a value, and its text (\<open>val + ''\<close>).\<close>

fun cell_truthy :: "cell \<Rightarrow> bool" where
  "cell_truthy Undef = False"
| "cell_truthy Null = False"
| "cell_truthy (Str s) = (s \<noteq> [])"
| "cell_truthy (Number n) = (n \<noteq> 0)"
| "cell_truthy NaNv = False"
| "cell_truthy (Boolean b) = b"
| "cell_truthy (DateV d) = True"
| "cell_truthy InvalidDate = True"
| "cell_truthy (Obj j) = True"

fun to_str :: "js_text \<Rightarrow> cell \<Rightarrow> string" where
  "to_str P Undef = ''undefined''"
| "to_str P Null = ''null''"
| "to_str P (Str s) = s"
| "to_str P (Number n) = show_int n"
| "to_str P NaNv = ''NaN''"
| "to_str P (Boolean b) = (if b then ''true'' else ''false'')"
| "to_str P (DateV d) = date_toString P d"
| "to_str P InvalidDate = ''Invalid Date''"
| "to_str P (Obj j) = obj_toString P j"

text \<open>
  The number a text denotes (\<open>+text\<close>), for the integers of this model: the empty text is
  0, an optional sign followed by digits is that integer, and every other text is read
  as \<open>NaN\<close> (JavaScript also reads blanks, fractions, exponents and hexadecimal literals,
  which the integer model has no values for).
\<close>

definition digit_values :: "(char \<times> nat) list" where
  "digit_values = [(CHR ''0'', 0), (CHR ''1'', 1), (CHR ''2'', 2), (CHR ''3'', 3), (CHR ''4'', 4),
     (CHR ''5'', 5), (CHR ''6'', 6), (CHR ''7'', 7), (CHR ''8'', 8), (CHR ''9'', 9)]"

definition digit_val :: "char \<Rightarrow> nat option" where
  "digit_val c = map_of digit_values c"

fun parse_nat :: "nat \<Rightarrow> string \<Rightarrow> nat option" where
  "parse_nat acc [] = Some acc"
| "parse_nat acc (c # cs) = (case digit_val c of None \<Rightarrow> None | Some d \<Rightarrow> parse_nat (10 * acc + d) cs)"

definition to_number :: "string \<Rightarrow> cell" where
  "to_number s =
     (case s of
        [] \<Rightarrow> Number 0
      | c # cs \<Rightarrow>
          (if c = CHR ''-'' \<and> cs \<noteq> [] then (case parse_nat 0 cs of None \<Rightarrow> NaNv | Some n \<Rightarrow> Number (- int n))
           else if c = CHR ''+'' \<and> cs \<noteq> [] then (case parse_nat 0 cs of None \<Rightarrow> NaNv | Some n \<Rightarrow> Number (int n))
           else (case parse_nat 0 (c # cs) of None \<Rightarrow> NaNv | Some n \<Rightarrow> Number (int n))))"

text \<open>\<open>val == true\<close>.\<close>

fun eq_true :: "js_text \<Rightarrow> cell \<Rightarrow> bool" where
  "eq_true P (Boolean b) = b"
| "eq_true P (Number n) = (n = 1)"
| "eq_true P (Str s) = (to_number s = Number 1)"
| "eq_true P (DateV d) = (to_number (date_toString P d) = Number 1)"
| "eq_true P (Obj j) = (to_number (obj_toString P j) = Number 1)"
| "eq_true P v = False"

text \<open>The escapes of the row format.\<close>

definition REGTESCAPETEST :: "string \<Rightarrow> bool" where
  "REGTESCAPETEST val = list_ex (\<lambda>c. c = CHR ''|'' \<or> c = CHR 0x0A \<or> c = CHR 0x0D) val"

definition regtescape :: "char \<Rightarrow> string" where
  "regtescape c = (if c = CHR 0x0A then ''%0A'' else if c = CHR 0x0D then ''%0D''
     else if c = CHR ''|'' then ''%7C'' else [c])"

text \<open>\<open>val.replace(REGTESCAPE, regtescape)\<close>: every one of the three characters is a match.\<close>

definition replace_REGTESCAPE :: "string \<Rightarrow> string" where
  "replace_REGTESCAPE val = concat (map regtescape val)"

definition regtescapereverse :: "string \<Rightarrow> string" where
  "regtescapereverse c = (if c = ''%0A'' then [CHR 0x0A] else if c = ''%0D'' then [CHR 0x0D]
     else if c = ''%7C'' then ''|'' else c)"

definition REGTUNESCAPE :: "string \<Rightarrow> bool" where
  "REGTUNESCAPE t = (t = ''%7C'' \<or> t = ''%0D'' \<or> t = ''%0A'')"

text \<open>\<open>val.replace(REGTUNESCAPE, regtescapereverse)\<close>: matches are found from left to right.\<close>

fun replace_REGTUNESCAPE :: "string \<Rightarrow> string" where
  "replace_REGTUNESCAPE [] = []"
| "replace_REGTUNESCAPE (c # cs) =
     (if REGTUNESCAPE (take 3 (c # cs)) then regtescapereverse (take 3 (c # cs)) @ replace_REGTUNESCAPE (drop 2 cs)
      else c # replace_REGTUNESCAPE cs)"

text \<open>
  The \<open>switch\<close> of \<open>TP.stringify\<close> on the type of the column.  In a date column a value that
  is true and is not a date has no \<open>getTime\<close>.
\<close>

fun column_value :: "js_text \<Rightarrow> coltype \<Rightarrow> cell \<Rightarrow> js_error + cell" where
  "column_value P CString val = Inr (if cell_truthy val then val else Str [])"
| "column_value P CNumber val = Inr (if cell_truthy val then val else Number 0)"
| "column_value P CBoolean val = Inr (Str (if eq_true P val then ''1'' else ''0''))"
| "column_value P CDate val =
     (if cell_truthy val then
        (case val of DateV d \<Rightarrow> Inr (Number d) | InvalidDate \<Rightarrow> Inr NaNv | _ \<Rightarrow> Inl TypeError)
      else Inr (Str []))"
| "column_value P CObject val =
     (if cell_truthy val then
        Inr (Str (case val of
                    Obj j \<Rightarrow> JSON_stringify j
                  | Str s \<Rightarrow> json_quote s
                  | Number n \<Rightarrow> show_int n
                  | Boolean b \<Rightarrow> ''true''
                  | DateV d \<Rightarrow> date_toJSON P d
                  | _ \<Rightarrow> ''null''))
      else Inr (Str []))"

text \<open>
  The loop of \<open>TP.stringify\<close> over \<open>$keys\<close>, with the flag \<open>esc\<close> and the text \<open>output\<close> built so
  far.  A text column or object column is tested and escaped only while \<open>esc\<close> is still
  false.
\<close>

fun stringify_loop :: "js_text \<Rightarrow> schema \<Rightarrow> (string \<Rightarrow> cell) \<Rightarrow> string list \<Rightarrow> bool \<Rightarrow> string \<Rightarrow> js_error + (bool \<times> string)" where
  "stringify_loop P S doc [] esc output = Inr (esc, output)"
| "stringify_loop P S doc (key # rest) esc output =
     (case s_schema S key of
        None \<Rightarrow> Inl TypeError
      | Some (type, pos) \<Rightarrow>
          (case column_value P type (doc key) of
             Inl e \<Rightarrow> Inl e
           | Inr val \<Rightarrow>
               if \<not> esc \<and> (type = CString \<or> type = CObject) then
                 (if REGTESCAPETEST (to_str P val)
                  then stringify_loop P S doc rest True (output @ ''|'' @ replace_REGTESCAPE (to_str P val))
                  else stringify_loop P S doc rest esc (output @ ''|'' @ to_str P val))
               else stringify_loop P S doc rest esc (output @ ''|'' @ to_str P val)))"

definition stringify :: "js_text \<Rightarrow> schema \<Rightarrow> (string \<Rightarrow> cell) \<Rightarrow> js_error + string" where
  "stringify P S doc =
     (case stringify_loop P S doc (s_keys S) False [] of
        Inl e \<Rightarrow> Inl e
      | Inr (esc, output) \<Rightarrow> Inr ((if esc then ''*'' else ''+'') @ output))"

text \<open>\<open>s.split(sep)\<close> for a separator of one character; \<open>cur\<close> is the piece being read.\<close>

fun split_on :: "char \<Rightarrow> string \<Rightarrow> string \<Rightarrow> string list" where
  "split_on sep cur [] = [cur]"
| "split_on sep cur (c # cs) = (if c = sep then cur # split_on sep [] cs else split_on sep (cur @ [c]) cs)"

definition split :: "char \<Rightarrow> string \<Rightarrow> string list" where
  "split sep s = split_on sep [] s"

text \<open>\<open>data.line[pos]\<close>; an index behind the end gives \<open>undefined\<close>.\<close>

definition line_at :: "string list \<Rightarrow> nat \<Rightarrow> string option" where
  "line_at line pos = (if pos < length line then Some (line ! pos) else None)"

definition BOOLEAN :: "string \<Rightarrow> bool" where
  "BOOLEAN val = (val = ''1'' \<or> val = ''true'' \<or> val = ''on'')"

text \<open>
  The \<open>switch\<close> of \<open>TP.parseData\<close> for one column.  A date text with \<open>T\<close> as its eleventh
  character is taken as an ISO date, every other one as milliseconds.
\<close>

fun parse_column :: "js_text \<Rightarrow> bool \<Rightarrow> coltype \<Rightarrow> string option \<Rightarrow> cell" where
  "parse_column P esc CString None = Undef"
| "parse_column P esc CString (Some val) = Str (if esc \<and> val \<noteq> [] then replace_REGTUNESCAPE val else val)"
| "parse_column P esc CNumber None = NaNv"
| "parse_column P esc CNumber (Some val) = to_number val"
| "parse_column P esc CBoolean None = Boolean False"
| "parse_column P esc CBoolean (Some val) = Boolean (BOOLEAN val)"
| "parse_column P esc CDate None = Null"
| "parse_column P esc CDate (Some val) =
     (if val = [] then Null
      else if 10 < length val \<and> val ! 10 = CHR ''T'' then date_parse P val
      else (case to_number val of Number n \<Rightarrow> DateV n | _ \<Rightarrow> InvalidDate))"
| "parse_column P esc CObject None = Null"
| "parse_column P esc CObject (Some val) =
     (let val' = (if esc \<and> val \<noteq> [] then replace_REGTUNESCAPE val else val)
      in if val' = [] then Null else parseJSON P val')"

text \<open>
  \<open>TP.parseData\<close>: \<open>line\<close> is the row split at the bars, \<open>keys\<close> the columns wanted, \<open>cache\<close> an
  object whose fields are taken over as they are (\<open>None\<close>: no such argument).
\<close>

fun parseData_loop :: "js_text \<Rightarrow> schema \<Rightarrow> string list \<Rightarrow> (string \<Rightarrow> cell) option \<Rightarrow> string list \<Rightarrow> (string \<Rightarrow> cell) \<Rightarrow> (string \<Rightarrow> cell)" where
  "parseData_loop P S line cache [] obj = obj"
| "parseData_loop P S line cache (key # rest) obj =
     parseData_loop P S line cache rest
       (if (case cache of None \<Rightarrow> False | Some c \<Rightarrow> c key \<noteq> Undef \<and> c key \<noteq> Null)
        then obj(key := the cache key)
        else (case s_schema S key of
                None \<Rightarrow> obj
              | Some (type, pos) \<Rightarrow>
                  obj(key := parse_column P (line_at line 0 = Some ''*'') type (line_at line (pos + 1)))))"

definition parseData :: "js_text \<Rightarrow> schema \<Rightarrow> string list \<Rightarrow> string list \<Rightarrow> (string \<Rightarrow> cell) option \<Rightarrow> (string \<Rightarrow> cell)" where
  "parseData P S line keys cache = parseData_loop P S line cache keys (\<lambda>k. Undef)"

text \<open>The text a row has in one column, and whether that text calls for escaping.\<close>

definition cell_text :: "js_text \<Rightarrow> schema \<Rightarrow> (string \<Rightarrow> cell) \<Rightarrow> string \<Rightarrow> string" where
  "cell_text P S doc key =
     (case s_schema S key of
        None \<Rightarrow> []
      | Some (type, pos) \<Rightarrow> (case column_value P type (doc key) of Inl e \<Rightarrow> [] | Inr val \<Rightarrow> to_str P val))"

definition text_column :: "schema \<Rightarrow> string \<Rightarrow> bool" where
  "text_column S key = (case s_schema S key of None \<Rightarrow> False | Some (type, pos) \<Rightarrow> type = CString \<or> type = CObject)"

definition needs_escape :: "js_text \<Rightarrow> schema \<Rightarrow> (string \<Rightarrow> cell) \<Rightarrow> string \<Rightarrow> bool" where
  "needs_escape P S doc key = (text_column S key \<and> REGTESCAPETEST (cell_text P S doc key))"

text \<open>A text holds one of the three escape sequences.\<close>

fun has_token :: "string \<Rightarrow> bool" where
  "has_token [] = False"
| "has_token (c # cs) = (REGTUNESCAPE (take 3 (c # cs)) \<or> has_token cs)"

text \<open>
  A row is representable in a schema when every column holds a value of its type: a
  text, a number, a boolean, a date or \<open>null\<close>, an object that \<open>parseJSON\<close> reads unesc from
  its JSON text or \<open>null\<close>; and the row has no other fields.
\<close>

definition representable :: "js_text \<Rightarrow> schema \<Rightarrow> (string \<Rightarrow> cell) \<Rightarrow> bool" where
  "representable P S doc =
     ((\<forall>key. key \<notin> set (s_keys S) \<longrightarrow> doc key = Undef)
      \<and> (\<forall>key \<in> set (s_keys S).
            case s_schema S key of
              None \<Rightarrow> False
            | Some (type, pos) \<Rightarrow>
                (case type of
                   CString \<Rightarrow> (\<exists>s. doc key = Str s)
                 | CNumber \<Rightarrow> (\<exists>n. doc key = Number n)
                 | CBoolean \<Rightarrow> (\<exists>b. doc key = Boolean b)
                 | CDate \<Rightarrow> (\<exists>d. doc key = DateV d) \<or> doc key = Null
                 | CObject \<Rightarrow> (\<exists>j. doc key = Obj j \<and> parseJSON P (JSON_stringify j) = Obj j) \<or> doc key = Null)))"

text \<open>A schema in which every key stands at the position the schema gives it.\<close>

definition schema_ok :: "schema \<Rightarrow> bool" where
  "schema_ok S = (\<forall>key \<in> set (s_keys S). \<exists>type pos. s_schema S key = Some (type, pos)
     \<and> pos < length (s_keys S) \<and> s_keys S ! pos = key)"

definition table_encode :: "js_text \<Rightarrow> schema \<Rightarrow> (string \<Rightarrow> cell) \<Rightarrow> js_error + string" where
  "table_encode P S doc = stringify P S doc"

definition table_decode :: "js_text \<Rightarrow> schema \<Rightarrow> string \<Rightarrow> (string \<Rightarrow> cell)" where
  "table_decode P S row = parseData P S (split (CHR ''|'') row) (s_keys S) None"

text \<open>A concrete outside world for runs: objects are not read unesc.\<close>

definition plain_text :: js_text where
  "plain_text = \<lparr>date_toString = (\<lambda>d. ''date''), date_toJSON = (\<lambda>d. ''date''), obj_toString = (\<lambda>j. ''[object Object]''),
     parseJSON = (\<lambda>t. Undef), date_parse = (\<lambda>t. InvalidDate)\<rparr>"

definition is_digit :: "char \<Rightarrow> bool" where
  "is_digit c = (digit_val c \<noteq> None)"

text \<open>The text of a column as it stands in the row when every text column is escaped.\<close>

definition encoded_text :: "js_text \<Rightarrow> schema \<Rightarrow> (string \<Rightarrow> cell) \<Rightarrow> string \<Rightarrow> string" where
  "encoded_text P S doc key =
     (if text_column S key then replace_REGTESCAPE (cell_text P S doc key) else cell_text P S doc key)"

text \<open>A concrete table and row, and an outside world that reads the row's object back.\<close>

definition demo_schema :: schema where
  "demo_schema = parseSchema [(''a'', CString), (''n'', CNumber), (''o'', CBoolean), (''d'', CDate), (''m'', CObject)]"

definition demo_row :: "string \<Rightarrow> cell" where
  "demo_row = (\<lambda>k. Undef)(''a'' := Str ''a|b'', ''n'' := Number (- 12), ''o'' := Boolean True,
     ''d'' := DateV 1500, ''m'' := Obj (JObj [(''x'', JStr ''y'')]))"

definition demo_text :: js_text where
  \<open>demo_text = plain_text\<lparr>parseJSON := (\<lambda>t. if t = ''{"x":"y"}'' then Obj (JObj [(''x'', JStr ''y'')]) else Undef)\<rparr>\<close>

section \<open>Flushing the counter cache (CP.save)\<close>

text \<open>
  Text operations of JavaScript.  \<open>indexOf\<close> answers \<open>None\<close> for \<open>-1\<close>; the three substring
  functions are \<open>s.substring(0, index)\<close>, \<open>s.substring(0, index + 1)\<close> and
  \<open>s.substring(index + 1)\<close> for such an index.  \<open>trim\<close> removes blanks, tabs, line feeds,
  vertical tabs, form feeds and carriage returns at both ends.
\<close>

fun index_of :: "char \<Rightarrow> string \<Rightarrow> nat option" where
  "index_of c [] = None"
| "index_of c (x # xs) = (if x = c then Some 0 else map_option Suc (index_of c xs))"

definition before_index :: "string \<Rightarrow> nat option \<Rightarrow> string" where
  "before_index s index = (case index of None \<Rightarrow> [] | Some i \<Rightarrow> take i s)"

definition upto_index :: "string \<Rightarrow> nat option \<Rightarrow> string" where
  "upto_index s index = (case index of None \<Rightarrow> [] | Some i \<Rightarrow> take (i + 1) s)"

definition after_index :: "string \<Rightarrow> nat option \<Rightarrow> string" where
  "after_index s index = (case index of None \<Rightarrow> s | Some i \<Rightarrow> drop (i + 1) s)"

definition is_space :: "char \<Rightarrow> bool" where
  "is_space c = (c = CHR '' '' \<or> c = CHR 0x09 \<or> c = CHR 0x0A \<or> c = CHR 0x0B \<or> c = CHR 0x0C \<or> c = CHR 0x0D)"

definition trim :: "string \<Rightarrow> string" where
  "trim s = rev (dropWhile is_space (rev (dropWhile is_space s)))"

text \<open>
  The text of a number read from the file after a pending amount has been added
  (\<open>+old + count\<close>), and of the larger and the smaller of the two.
\<close>

definition number_text :: "cell \<Rightarrow> string" where
  "number_text v = (case v of Number m \<Rightarrow> show_int m | _ \<Rightarrow> ''NaN'')"

definition plus_text :: "string \<Rightarrow> int \<Rightarrow> string" where
  "plus_text old n = number_text (case to_number old of Number m \<Rightarrow> Number (m + n) | _ \<Rightarrow> NaNv)"

definition max_text :: "string \<Rightarrow> int \<Rightarrow> string" where
  "max_text old n = number_text (case to_number old of Number m \<Rightarrow> Number (max m n) | _ \<Rightarrow> NaNv)"

definition min_text :: "string \<Rightarrow> int \<Rightarrow> string" where
  "min_text old n = number_text (case to_number old of Number m \<Rightarrow> Number (min m n) | _ \<Rightarrow> NaNv)"

text \<open>
  The pair of an \<open>mma\<close> cell merged with a pending pair: the stored text \<open>minXmax\<close> is read
  into \<open>COUNTER_MMA\<close>, each side gives way to the pending side when that one is smaller
  (larger), and the two are written out again.  A side taken over from a pending pair can
  be \<open>undefined\<close>.
\<close>

definition side_text :: "cell \<Rightarrow> string" where
  "side_text v = (case v of Number m \<Rightarrow> show_int m | Undef \<Rightarrow> ''undefined'' | _ \<Rightarrow> ''NaN'')"

definition pending_side :: "int option \<Rightarrow> cell" where
  "pending_side a = (case a of None \<Rightarrow> Undef | Some x \<Rightarrow> Number x)"

definition mma_text :: "string \<Rightarrow> int option \<Rightarrow> int option \<Rightarrow> string" where
  "mma_text old a b =
     (let tmpi = index_of (CHR ''X'') old;
          m0 = to_number (before_index old tmpi);
          m1 = to_number (after_index old tmpi);
          m0' = (case (m0, a) of (Number m, Some x) \<Rightarrow> if x < m then pending_side a else m0 | _ \<Rightarrow> m0);
          m1' = (case (m1, b) of (Number m, Some x) \<Rightarrow> if m < x then pending_side b else m1 | _ \<Rightarrow> m1)
      in side_text m0' @ ''X'' @ side_text m1')"

text \<open>The text of a pending value where it is written out as it is.\<close>

definition count_text :: "cval \<Rightarrow> string" where
  "count_text count =
     (case count of
        CArr a b \<Rightarrow> side_text (pending_side a) @ ''X'' @ side_text (pending_side b)
      | CNum n \<Rightarrow> show_int n
      | CStr t \<Rightarrow> t
      | CNull \<Rightarrow> ''null''
      | CUndef \<Rightarrow> ''undefined'')"

text \<open>
  The merge of a stored text with the pending value by the type of the line (the first
  three characters of its identifier).  A number goes with \<open>sum\<close>, \<open>max\<close> and \<open>min\<close> and a pair
  with \<open>mma\<close>; what JavaScript's coercions make of any other pairing is the parameter
  \<open>coerce\<close>.  \<open>head\<close> tells the head of the line from a day bucket, where only \<open>mma\<close> and \<open>sum\<close>
  are merged.
\<close>

definition merge_text :: "(string \<Rightarrow> string \<Rightarrow> cval \<Rightarrow> string) \<Rightarrow> bool \<Rightarrow> string \<Rightarrow> string \<Rightarrow> cval \<Rightarrow> string" where
  "merge_text coerce head type old count =
     (if type = ''mma'' then (case count of CArr a b \<Rightarrow> mma_text old a b | _ \<Rightarrow> coerce type old count)
      else if type = ''max'' \<and> head then (case count of CNum n \<Rightarrow> max_text old n | _ \<Rightarrow> coerce type old count)
      else if type = ''min'' \<and> head then (case count of CNum n \<Rightarrow> min_text old n | _ \<Rightarrow> coerce type old count)
      else if type = ''sum'' then (case count of CNum n \<Rightarrow> plus_text old n | _ \<Rightarrow> coerce type old count)
      else old)"

text \<open>
  The loop over the day buckets \<open>arr[1], arr[2], \<dots>\<close>: the first bucket whose first five
  characters are \<open>dt\<close> (the day \<open>MMdd\<close> and the equals sign) is merged and ends the loop; the
  flag tells whether there was one.
\<close>

fun merge_buckets :: "(string \<Rightarrow> string \<Rightarrow> cval \<Rightarrow> string) \<Rightarrow> string \<Rightarrow> string \<Rightarrow> cval \<Rightarrow> string list \<Rightarrow> string list \<times> bool" where
  "merge_buckets coerce dt type count [] = ([], False)"
| "merge_buckets coerce dt type count (item # rest) =
     (if take 5 item = dt then ((take 5 item @ merge_text coerce False type (drop 5 item) count) # rest, True)
      else (case merge_buckets coerce dt type count rest of (rest', is) \<Rightarrow> (item # rest', is)))"

definition line_id :: "string \<Rightarrow> string" where
  "line_id value = before_index value (index_of (CHR ''='') value)"

text \<open>
  The callback of the reader for one line, behind the read of \<open>cache[id]\<close>; \<open>value\<close> is the
  line with its line feed.  The result is the text written for it, if any, and the cache,
  in which a merged identifier is set to \<open>undefined\<close>.
\<close>

definition merge_line :: "(string \<Rightarrow> string \<Rightarrow> cval \<Rightarrow> string) \<Rightarrow> string \<Rightarrow> string \<Rightarrow> cache \<Rightarrow> string option \<times> cache" where
  "merge_line coerce dt value cache =
     (let id = line_id value; count = cache_get cache id in
      if count = CNull then (None, cache)
      else if count = CUndef then (Some value, cache)
      else
        (let arr = split (CHR '';'') (trim value);
             index = index_of (CHR ''='') (hd arr);
             type = take 3 id;
             arr0 = (if type = ''mma'' \<or> type = ''max'' \<or> type = ''min'' \<or> type = ''sum''
                     then upto_index (hd arr) index @ merge_text coerce True type (after_index (hd arr) index) count
                     else hd arr)
         in (case merge_buckets coerce dt type count (tl arr) of
               (buckets, is) \<Rightarrow>
                 (Some (join '';'' (arr0 # buckets @ (if is then [] else [dt @ count_text count])) @ NEWLINE),
                  cache_set cache id CUndef))))"

text \<open>
  The callback as a whole: \<open>cache\<close> is \<open>self.cache\<close> as \<open>save\<close> found it, and the read of
  \<open>cache[id]\<close> raises a TypeError when it is \<open>null\<close> or \<open>undefined\<close>.
\<close>

definition save_line :: "(string \<Rightarrow> string \<Rightarrow> cval \<Rightarrow> string) \<Rightarrow> string \<Rightarrow> string \<Rightarrow> cache \<Rightarrow>
    js_error + (string option \<times> cache)" where
  "save_line coerce dt value cache =
     (case cache of None \<Rightarrow> Inl TypeError | Some al \<Rightarrow> Inr (merge_line coerce dt value cache))"

fun save_lines :: "(string \<Rightarrow> string \<Rightarrow> cval \<Rightarrow> string) \<Rightarrow> string \<Rightarrow> string list \<Rightarrow> cache \<Rightarrow>
    js_error + (string list \<times> cache)" where
  "save_lines coerce dt [] cache = Inr ([], cache)"
| "save_lines coerce dt (value # rest) cache =
     (case save_line coerce dt value cache of
        Inl e \<Rightarrow> Inl e
      | Inr (written, cache') \<Rightarrow>
          (case save_lines coerce dt rest cache' of
             Inl e \<Rightarrow> Inl e
           | Inr (others, cache'') \<Rightarrow> Inr ((case written of None \<Rightarrow> [] | Some t \<Rightarrow> [t]) @ others, cache'')))"

text \<open>
  \<open>flush\<close>, at the end of the file: every identifier still pending gets a line of its own
  with today's bucket.  \<open>Object.keys(cache)\<close> raises a TypeError for \<open>null\<close> and \<open>undefined\<close>.
\<close>

definition flush :: "string \<Rightarrow> cache \<Rightarrow> js_error + string list" where
  "flush dt cache =
     (case cache of
        None \<Rightarrow> Inl TypeError
      | Some al \<Rightarrow>
          Inr (concat (map (\<lambda>(key, item). if item = CNull \<or> item = CUndef then []
                   else [key @ ''='' @ count_text item @ '';'' @ dt @ count_text item @ NEWLINE]) al)))"

text \<open>
  \<open>CP.save\<close> on an idle counter: the file is given as its lines, each with its line feed,
  as the reader hands them over; \<open>mmdd\<close> is \<open>NOW.format('MMdd')\<close>.  The result is what is
  written to the temporary file that then replaces the counter file, or the TypeError
  of a flush with nothing pending (\<open>self.cache\<close> being \<open>null\<close>).
\<close>

definition save :: "(string \<Rightarrow> string \<Rightarrow> cval \<Rightarrow> string) \<Rightarrow> string \<Rightarrow> cache \<Rightarrow> string list \<Rightarrow> js_error + string list" where
  "save coerce mmdd cache values =
     (case save_lines coerce (mmdd @ ''='') values cache of
        Inl e \<Rightarrow> Inl e
      | Inr (written, cache') \<Rightarrow>
          (case flush (mmdd @ ''='') cache' of Inl e \<Rightarrow> Inl e | Inr others \<Rightarrow> Inr (written @ others)))"






text \<open>
  The calls \<open>hit(id, n)\<close> of a run, each with the day \<open>MMdd\<close> on which it was made (of which
  \<open>hit\<close> keeps nothing) and its amount; the cache after them; and the amounts, as \<open>hit\<close>
  counts them, of the calls made on a day.
\<close>

type_synonym hit_call = "string \<times> int option"

definition hits :: "nat \<Rightarrow> string \<Rightarrow> hit_call list \<Rightarrow> cache \<Rightarrow> cache" where
  "hits year ident calls c = fold (\<lambda>call. hit year (Id ident) (snd call)) calls c"





section \<open>Tombstoned rows of a table (TP.$remove, TP.$update, TP.$reader, TP.$reader3)\<close>

text \<open>
  Modelled from the spec: \<open>fs.remchar\<close>, a property of \<open>NoSQLStream\<close> (\<open>./nosqlstream\<close>, which is
  not among the sources).  The spec names \<open>-\<close> as the marker of a tombstoned row.
\<close>

definition remchar :: char where
  "remchar = CHR ''-''"

text \<open>
  What \<open>TP.$remove\<close> writes at the position of a matched line, and \<open>TP.$update\<close> at the
  position of a line whose new text does not fit: \<open>fs.remchar + rec.doc.substring(1)\<close>.
\<close>

definition tombstone :: "string \<Rightarrow> string" where
  "tombstone doc = remchar # drop 1 doc"

definition live :: "string \<Rightarrow> bool" where
  "live line = (take 1 line \<noteq> [remchar])"

text \<open>
  Modelled from the spec: the read sessions of \<open>NoSQLStream\<close> (\<open>fs.openread\<close>,
  \<open>fs.openreadreverse\<close>), which are not among the sources.  A session hands the lines of
  the file over in batches of one or more complete lines, from the start of the file to
  its end or the other way round, and the passes run over the live lines: those whose
  first character is not the marker of a tombstone.  A file is the list of its lines,
  the header first; a session is the list of its batches.
\<close>

definition read_session :: "string list \<Rightarrow> string list list \<Rightarrow> bool" where
  "read_session file batches = (concat batches = filter live file \<and> [] \<notin> set batches)"

definition read_session_reverse :: "string list \<Rightarrow> string list list \<Rightarrow> bool" where
  "read_session_reverse file batches = (concat batches = rev (filter live file) \<and> [] \<notin> set batches)"

text \<open>
  The loop of \<open>fs.ondocuments\<close> in \<open>TP.$reader\<close> over the lines of one batch (\<open>fs.docs\<close> split
  at the divider gives the lines back): every line is split at the bars, parsed
  (\<open>parse\<close> stands for \<open>TP.parseData\<close> with the keys of the pass) and handed to the loop over
  the readers, which is the one of the document reader.  \<open>indexer\<close> grows by two for each
  line.  The lines handed to the readers are collected in \<open>seen\<close>; the last component tells
  that the body returned \<open>false\<close>, which ends the session.
\<close>

fun table_lines :: "('d, 'v, 'sc) js_env \<Rightarrow> (string list \<Rightarrow> 'd) \<Rightarrow> bool \<Rightarrow> nat \<Rightarrow> string list \<Rightarrow>
    ('d, 'sc) reader_item list \<Rightarrow> string list \<Rightarrow> ('d, 'sc) reader_item list \<times> string list \<times> nat \<times> bool" where
  "table_lines env parse first indexer [] items seen = (items, seen, indexer, False)"
| "table_lines env parse first indexer (line # lines) items seen =
     (case readers_loop env first (parse (split (CHR ''|'') line)) items of
        (items', stop) \<Rightarrow>
          if stop then (items', seen @ [line], indexer + 2, True)
          else table_lines env parse first (indexer + 2) lines items' (seen @ [line]))"

text \<open>
  The batches of the forward pass: the loop starts at the second line of a batch as long
  as \<open>indexer\<close> is zero (the header), and at the first one afterwards.
\<close>

fun table_batches :: "('d, 'v, 'sc) js_env \<Rightarrow> (string list \<Rightarrow> 'd) \<Rightarrow> bool \<Rightarrow> nat \<Rightarrow> string list list \<Rightarrow>
    ('d, 'sc) reader_item list \<Rightarrow> string list \<Rightarrow> ('d, 'sc) reader_item list \<times> string list" where
  "table_batches env parse first indexer [] items seen = (items, seen)"
| "table_batches env parse first indexer (lines # rest) items seen =
     (case table_lines env parse first indexer (drop (if indexer \<noteq> 0 then 0 else 1) lines) items seen of
        (items', seen', indexer', stop) \<Rightarrow>
          if stop then (items', seen') else table_batches env parse first indexer' rest items' seen')"

text \<open>
  \<open>TP.$reader\<close> over a session: the readers as the pass leaves them, from which the
  completion callback computes what each query receives (documents, a count, a scalar),
  and the lines that were handed to their predicates.
\<close>

definition table_reader :: "('d, 'v, 'sc) js_env \<Rightarrow> (string list \<Rightarrow> 'd) \<Rightarrow> ('d, 'sc) reader_item list \<Rightarrow>
    string list list \<Rightarrow> ('d, 'sc) reader_item list \<times> string list" where
  "table_reader env parse items batches = table_batches env parse (first_flag items) 0 batches items []"

text \<open>
  \<open>TP.$reader3\<close>, the pass from the end of the file: no line is left out by its place;
  a line is passed over when its first field is not a key of \<open>TABLERECORD\<close>, which holds
  the three markers.
\<close>

definition TABLERECORD :: "string \<Rightarrow> bool" where
  "TABLERECORD key = (key = ''+'' \<or> key = ''-'' \<or> key = ''*'')"

definition record_lines :: "string list \<Rightarrow> string list" where
  "record_lines lines = filter (\<lambda>line. TABLERECORD (hd (split (CHR ''|'') line))) lines"

fun table_batches3 :: "('d, 'v, 'sc) js_env \<Rightarrow> (string list \<Rightarrow> 'd) \<Rightarrow> bool \<Rightarrow> nat \<Rightarrow> string list list \<Rightarrow>
    ('d, 'sc) reader_item list \<Rightarrow> string list \<Rightarrow> ('d, 'sc) reader_item list \<times> string list" where
  "table_batches3 env parse first indexer [] items seen = (items, seen)"
| "table_batches3 env parse first indexer (lines # rest) items seen =
     (case table_lines env parse first indexer (record_lines lines) items seen of
        (items', seen', indexer', stop) \<Rightarrow>
          if stop then (items', seen') else table_batches3 env parse first indexer' rest items' seen')"

definition table_reader3 :: "('d, 'v, 'sc) js_env \<Rightarrow> (string list \<Rightarrow> 'd) \<Rightarrow> ('d, 'sc) reader_item list \<Rightarrow>
    string list list \<Rightarrow> ('d, 'sc) reader_item list \<times> string list" where
  "table_reader3 env parse items batches = table_batches3 env parse (first_flag items) 0 batches items []"

text \<open>A pass over given documents, as the theorems below compare the table passes with.\<close>

definition parsed :: "(string list \<Rightarrow> 'd) \<Rightarrow> string list \<Rightarrow> 'd list" where
  "parsed parse lines = map (\<lambda>line. parse (split (CHR ''|'') line)) lines"

section \<open>Verification: scheduler phase exclusivity\<close>

lemma next_DP_blocked: "type \<noteq> 0 \<Longrightarrow> NEXTWAIT (step s) \<Longrightarrow> next_DP type s = (Blocked, s)"
  by (simp add: next_DP_def)

lemma next_TP_blocked: "type \<noteq> 0 \<Longrightarrow> NEXTWAIT (step s) \<Longrightarrow> next_TP type s = (Blocked, s)"
  by (simp add: next_TP_def)

lemma fst_if: "fst (if c then a else b) = (if c then fst a else fst b)"
  by simp

lemma is_write_phase_if:
  "is_write_phase (if c then a else b) = (if c then is_write_phase a else is_write_phase b)"
  by simp

lemma is_read_phase_if:
  "is_read_phase (if c then a else b) = (if c then is_read_phase a else is_read_phase b)"
  by simp

lemma is_write_phase_simps:
  "\<not> is_write_phase Blocked" "\<not> is_write_phase Rescheduled" "\<not> is_write_phase Settled"
  "\<not> is_write_phase NoSuchMethod"
  "is_write_phase (Started p) = (p = Append \<or> p = AppendInmemory \<or> p = Update
     \<or> p = UpdateInmemory \<or> p = Remove \<or> p = RemoveInmemory)"
  by (simp_all add: is_write_phase_def)

lemma is_read_phase_simps:
  "\<not> is_read_phase Blocked" "\<not> is_read_phase Rescheduled" "\<not> is_read_phase Settled"
  "\<not> is_read_phase NoSuchMethod"
  "is_read_phase (Started p) = (p = Reader \<or> p = Reader3 \<or> p = Streamer)"
  by (simp_all add: is_read_phase_def)

lemma next_DP_writting: "writting s \<Longrightarrow> \<not> is_write_phase (fst (next_DP type s))"
  by (simp add: next_DP_def fst_if is_write_phase_if is_write_phase_simps)

lemma next_TP_writting: "writting s \<Longrightarrow> \<not> is_write_phase (fst (next_TP type s))"
  by (simp add: next_TP_def fst_if is_write_phase_if is_write_phase_simps)

lemma next_DP_reading: "reading s \<Longrightarrow> \<not> is_read_phase (fst (next_DP type s))"
  by (simp add: next_DP_def fst_if is_read_phase_if is_read_phase_simps)

lemma next_TP_reading: "reading s \<Longrightarrow> \<not> is_read_phase (fst (next_TP type s))"
  by (simp add: next_TP_def fst_if is_read_phase_if is_read_phase_simps)

text \<open>
  Claim C5.  A call \<open>next(type)\<close> with non-zero \<open>type\<close> while the current step is one of
  drop (7), backup (8), restore (9), clear (12), clean (13), lock (14) returns at once
  and leaves the instance as it was; while the writing flag is set \<open>next\<close> starts none of
  append, update, remove; while the reading flag is set it starts none of reader,
  reverse reader, streamer.  This holds for the document scheduler and the table
  scheduler alike.
\<close>

theorem next_phase_exclusivity:
  "(type \<noteq> 0 \<and> NEXTWAIT (step s) \<longrightarrow> next_DP type s = (Blocked, s) \<and> next_TP type s = (Blocked, s))
   \<and> (writting s \<longrightarrow> \<not> is_write_phase (fst (next_DP type s)) \<and> \<not> is_write_phase (fst (next_TP type s)))
   \<and> (reading s \<longrightarrow> \<not> is_read_phase (fst (next_DP type s)) \<and> \<not> is_read_phase (fst (next_TP type s)))"
  using next_DP_blocked [of type s] next_TP_blocked [of type s] next_DP_writting [of s type]
    next_TP_writting [of s type] next_DP_reading [of s type] next_TP_reading [of s type]
  by blast

theorem next_phase_exclusivity_witness:
  "next_DP 4 (idle_db\<lparr>step := 13, pending_reader := [1]\<rparr>) = (Blocked, idle_db\<lparr>step := 13, pending_reader := [1]\<rparr>)
   \<and> next_TP 4 (idle_db\<lparr>step := 13, pending_reader := [1]\<rparr>) = (Blocked, idle_db\<lparr>step := 13, pending_reader := [1]\<rparr>)
   \<and> fst (next_DP 0 (idle_db\<lparr>writting := True, pending_append := [1], pending_reader := [2]\<rparr>)) = Started Reader
   \<and> \<not> is_write_phase (fst (next_TP 0 (idle_db\<lparr>writting := True, pending_append := [1], pending_reader := [2]\<rparr>)))
   \<and> fst (next_DP 0 (idle_db\<lparr>reading := True, pending_reader := [1], pending_update := [2]\<rparr>)) = Started Update
   \<and> \<not> is_read_phase (fst (next_TP 0 (idle_db\<lparr>reading := True, pending_reader := [1], pending_update := [2]\<rparr>)))"
proof -
  have a: "(4::nat) \<noteq> 0 \<and> NEXTWAIT (step (idle_db\<lparr>step := 13, pending_reader := [1]\<rparr>))"
    by (simp add: NEXTWAIT_def idle_db_def)
  have b: "writting (idle_db\<lparr>writting := True, pending_append := [1], pending_reader := [2]\<rparr>)"
    by simp
  have c: "reading (idle_db\<lparr>reading := True, pending_reader := [1], pending_update := [2]\<rparr>)"
    by simp
  note t1 = next_phase_exclusivity [of 4 "idle_db\<lparr>step := 13, pending_reader := [1]\<rparr>"]
  note t2 = next_phase_exclusivity [of 0 "idle_db\<lparr>writting := True, pending_append := [1], pending_reader := [2]\<rparr>"]
  note t3 = next_phase_exclusivity [of 0 "idle_db\<lparr>reading := True, pending_reader := [1], pending_update := [2]\<rparr>"]
  have d: "fst (next_DP 0 (idle_db\<lparr>writting := True, pending_append := [1], pending_reader := [2]\<rparr>)) = Started Reader"
    by (simp add: next_DP_def idle_db_def NEXTWAIT_def)
  have e: "fst (next_DP 0 (idle_db\<lparr>reading := True, pending_reader := [1], pending_update := [2]\<rparr>)) = Started Update"
    by (simp add: next_DP_def idle_db_def NEXTWAIT_def)
  from a b c t1 t2 t3 d e show ?thesis by blast
qed

section \<open>Verification: modify jobs\<close>

text \<open>
  Claim C3 asks that a key prefixed by \<open>*\<close> multiplies the field by the supplied value.
  On the job built from \<open>{'*n': 3}\<close> and a matched document with \<open>n = 2\<close> the code stores
  \<open>5\<close>, the sum, where the product is \<open>6\<close>; the other three prefixes do what the claim says
  (\<open>+\<close> gives 5, \<open>-\<close> gives -1, \<open>/\<close> gives 2/3, and a missing field counts as 0).
\<close>

theorem modify_star_adds:
  "update_modify (the (modify [(''*n'', Val (Num 3))])) (Map.empty(''n'' \<mapsto> Num 2)) ''n'' = Some (Num 5)
   \<and> js_mul (Num 2) (Num 3) = Num 6
   \<and> update_modify (the (modify [(''+n'', Val (Num 3))])) (Map.empty(''n'' \<mapsto> Num 2)) ''n'' = Some (Num 5)
   \<and> update_modify (the (modify [(''-n'', Val (Num 3))])) (Map.empty(''n'' \<mapsto> Num 2)) ''n'' = Some (Num (- 1))
   \<and> update_modify (the (modify [(''/n'', Val (Num 3))])) (Map.empty(''n'' \<mapsto> Num 2)) ''n'' = Some (Num (2 / 3))
   \<and> update_modify (the (modify [(''+n'', Val (Num 3))])) Map.empty ''n'' = Some (Num 3)"
  by (simp add: update_modify_def modify_def apply_inc_def is_sign_def js_sub_def)

section \<open>Verification: array identifiers of the counter\<close>

lemma map_of_cache_upd: "map_of (cache_upd key v al) = (map_of al)(key \<mapsto> v)"
  by (induction al) auto

lemma cache_get_set: "cache_get (cache_set c key v) k = (if k = key then v else cache_get c k)"
  by (cases c) (simp_all add: cache_get_def cache_set_def map_of_cache_upd)

lemma cache_get_empty_other: "k \<noteq> key \<Longrightarrow> cache_get (empty key val c) k = cache_get c k"
  by (simp add: empty_def cache_get_set)

text \<open>\<open>min\<close> writes under \<open>mma\<close> keys only.\<close>

lemma cmin_other_keys: "take 3 k \<noteq> ''mma'' \<Longrightarrow> cache_get (cmin year e count c) k = cache_get c k"
proof (induction year e count c rule: cmin.induct)
  case (1 year ids count c)
  have "\<And>c. (\<And>e c'. e \<in> set ids \<Longrightarrow> cache_get (cmin year e count c') k = cache_get c' k)
      \<Longrightarrow> cache_get (fold (\<lambda>e. cmin year e count) ids c) k = cache_get c k"
    by (induction ids) simp_all
  with 1 show ?case by simp
next
  case (2 year s count c)
  have "k \<noteq> ''mma'' @ show_nat year @ s" using 2 by auto
  then show ?case by (simp add: Let_def cache_get_set empty_def)
qed

lemma cmin_Id_step:
  "cache_get (cmin year (Id s) count c) (''mma'' @ show_nat year @ s)
     = mma_step count (cache_get c (''mma'' @ show_nat year @ s))"
proof (cases "c = None \<or> \<not> truthy (cache_get c (''mma'' @ show_nat year @ s))")
  case True
  then have "\<not> truthy (cache_get c (''mma'' @ show_nat year @ s))"
    by (auto simp add: cache_get_def)
  with True show ?thesis
    by (simp add: Let_def mma_step_def empty_def cache_get_set)
next
  case False
  then have t: "truthy (cache_get c (''mma'' @ show_nat year @ s))" by simp
  have "cmin year (Id s) count c
      = cache_set c (''mma'' @ show_nat year @ s) (minmax_upd (cache_get c (''mma'' @ show_nat year @ s)) count)"
    unfolding cmin.simps Let_def if_not_P [OF False] ..
  then show ?thesis
    using t by (simp add: mma_step_def cache_get_set)
qed

lemma js_gt_self: "\<not> js_gt a a"
  by (cases a) simp_all

lemma js_lt_self: "\<not> js_lt a a"
  by (simp add: js_lt_def js_gt_self)

lemma mma_step_idem: "mma_step count (mma_step count v) = mma_step count v"
proof (cases "truthy v")
  case False
  then show ?thesis by (simp add: mma_step_def js_gt_self js_lt_self)
next
  case True
  show ?thesis
  proof (cases v)
    case (CArr a b)
    then show ?thesis by (simp add: mma_step_def js_gt_self js_lt_self)
  qed (use True in \<open>simp_all add: mma_step_def\<close>)
qed

lemma fold_cmin_in:
  assumes "\<And>e c'. e \<in> set ids \<Longrightarrow>
      cache_get (cmin year e count c') k = cache_get c' k
      \<or> cache_get (cmin year e count c') k = mma_step count (cache_get c' k)"
  shows "cache_get (fold (\<lambda>e. cmin year e count) ids c) k = cache_get c k
      \<or> cache_get (fold (\<lambda>e. cmin year e count) ids c) k = mma_step count (cache_get c k)"
  using assms
proof (induction ids arbitrary: c)
  case Nil
  then show ?case by simp
next
  case (Cons e ids)
  have one: "cache_get (cmin year e count c) k = cache_get c k
      \<or> cache_get (cmin year e count c) k = mma_step count (cache_get c k)"
    by (rule Cons.prems) simp
  have rest: "cache_get (fold (\<lambda>e. cmin year e count) ids (cmin year e count c)) k = cache_get (cmin year e count c) k
      \<or> cache_get (fold (\<lambda>e. cmin year e count) ids (cmin year e count c)) k
          = mma_step count (cache_get (cmin year e count c) k)"
    by (rule Cons.IH) (rule Cons.prems, simp)
  from one rest show ?case
    using mma_step_idem [of count "cache_get c k"] by auto
qed

text \<open>A call of \<open>min\<close> leaves an entry alone or makes the step on it.\<close>

lemma cmin_in:
  "cache_get (cmin year e count c) k = cache_get c k
   \<or> cache_get (cmin year e count c) k = mma_step count (cache_get c k)"
proof (induction year e count c rule: cmin.induct)
  case (1 year ids count c)
  have "cache_get (fold (\<lambda>e. cmin year e count) ids c) k = cache_get c k
      \<or> cache_get (fold (\<lambda>e. cmin year e count) ids c) k = mma_step count (cache_get c k)"
    by (rule fold_cmin_in) (rule 1)
  then show ?case by simp
next
  case (2 year s count c)
  show ?case
  proof (cases "k = ''mma'' @ show_nat year @ s")
    case True
    then show ?thesis using cmin_Id_step [of year s count c] by simp
  next
    case False
    then show ?thesis by (simp add: Let_def cache_get_set empty_def)
  qed
qed

lemma fold_cmin_step:
  "Id s \<in> set ids \<Longrightarrow>
   cache_get (fold (\<lambda>e. cmin year e count) ids c) (''mma'' @ show_nat year @ s)
     = mma_step count (cache_get c (''mma'' @ show_nat year @ s))"
proof (induction ids arbitrary: c)
  case Nil
  then show ?case by simp
next
  case (Cons e ids)
  let ?k = "''mma'' @ show_nat year @ s"
  let ?c1 = "cmin year e count c"
  have rest: "cache_get (fold (\<lambda>e. cmin year e count) ids ?c1) ?k = cache_get ?c1 ?k
      \<or> cache_get (fold (\<lambda>e. cmin year e count) ids ?c1) ?k = mma_step count (cache_get ?c1 ?k)"
    by (rule fold_cmin_in) (rule cmin_in)
  show ?case
  proof (cases "e = Id s")
    case True
    then have "cache_get ?c1 ?k = mma_step count (cache_get c ?k)" by (simp only: cmin_Id_step)
    with rest show ?thesis using mma_step_idem [of count "cache_get c ?k"] by auto
  next
    case False
    with Cons.prems have "Id s \<in> set ids" by simp
    from Cons.IH [OF this, of ?c1]
    have r: "cache_get (fold (\<lambda>e. cmin year e count) ids ?c1) ?k = mma_step count (cache_get ?c1 ?k)" .
    from cmin_in [of year e count c ?k] r show ?thesis
      using mma_step_idem [of count "cache_get c ?k"] by auto
  qed
qed

lemma mma_step_create: "\<not> truthy v \<Longrightarrow> mma_step count v = CArr count count"
  by (simp add: mma_step_def)

lemma mma_step_update:
  "mma_step (Some m) (CArr (Some a) (Some b)) = CArr (Some (min a m)) (Some (max b m))"
  by (auto simp add: mma_step_def js_lt_def)

text \<open>
  Claim C10.  With an array as identifier, \<open>hit\<close> and \<open>max\<close> hand every element to \<open>min\<close>:
  the result is the cache after the calls \<open>min(element, n)\<close> in order.  For every string
  element the entry under its \<open>mma\<close> key is created as the pair \<open>[n, n]\<close> when there was
  none, and an existing pair \<open>[a, b]\<close> of numbers is updated to \<open>[min a n, max b n]\<close>.  No
  entry outside the \<open>mma\<close> keys, in particular no \<open>sum\<close> entry, is touched.
\<close>

theorem array_ids_update_mma:
  "hit year (Ids ids) n c = fold (\<lambda>e. cmin year e n) ids c
   \<and> cmax year (Ids ids) n c = fold (\<lambda>e. cmin year e n) ids c
   \<and> (\<forall>s. Id s \<in> set ids \<and> \<not> truthy (cache_get c (''mma'' @ show_nat year @ s)) \<longrightarrow>
         cache_get (hit year (Ids ids) n c) (''mma'' @ show_nat year @ s) = CArr n n
       \<and> cache_get (cmax year (Ids ids) n c) (''mma'' @ show_nat year @ s) = CArr n n)
   \<and> (\<forall>s a b m. Id s \<in> set ids \<and> cache_get c (''mma'' @ show_nat year @ s) = CArr (Some a) (Some b)
         \<and> n = Some m \<longrightarrow>
         cache_get (hit year (Ids ids) n c) (''mma'' @ show_nat year @ s) = CArr (Some (min a m)) (Some (max b m))
       \<and> cache_get (cmax year (Ids ids) n c) (''mma'' @ show_nat year @ s) = CArr (Some (min a m)) (Some (max b m)))
   \<and> (\<forall>k. take 3 k = ''sum'' \<longrightarrow>
         cache_get (hit year (Ids ids) n c) k = cache_get c k
       \<and> cache_get (cmax year (Ids ids) n c) k = cache_get c k)"
proof -
  let ?r = "fold (\<lambda>e. cmin year e n) ids c"
  have h: "hit year (Ids ids) n c = ?r" and m: "cmax year (Ids ids) n c = ?r"
    by simp_all
  have "\<And>k. take 3 k = ''sum'' \<Longrightarrow> cache_get (cmin year (Ids ids) n c) k = cache_get c k"
    by (rule cmin_other_keys) simp
  then have sum: "\<forall>k. take 3 k = ''sum'' \<longrightarrow> cache_get ?r k = cache_get c k"
    by simp
  have create: "\<forall>s. Id s \<in> set ids \<and> \<not> truthy (cache_get c (''mma'' @ show_nat year @ s)) \<longrightarrow>
      cache_get ?r (''mma'' @ show_nat year @ s) = CArr n n"
    using fold_cmin_step [of _ ids year n c] mma_step_create by metis
  have update: "\<forall>s a b m. Id s \<in> set ids \<and> cache_get c (''mma'' @ show_nat year @ s) = CArr (Some a) (Some b)
      \<and> n = Some m \<longrightarrow> cache_get ?r (''mma'' @ show_nat year @ s) = CArr (Some (min a m)) (Some (max b m))"
    using fold_cmin_step [of _ ids year n c] mma_step_update by metis
  show ?thesis
    unfolding h m using sum create update by blast
qed

theorem array_ids_update_mma_witness:
  "cache_get (hit 2018 (Ids [Id ''a'', Id ''b'']) (Some 1) (cmin 2018 (Id ''a'') (Some 5) None)) ''mma2018a''
     = CArr (Some 1) (Some 5)
   \<and> cache_get (cmax 2018 (Ids [Id ''a'', Id ''b'']) (Some 9) (cmin 2018 (Id ''a'') (Some 5) None)) ''mma2018a''
     = CArr (Some 5) (Some 9)
   \<and> cache_get (hit 2018 (Ids [Id ''a'', Id ''b'']) (Some 1) (cmin 2018 (Id ''a'') (Some 5) None)) ''mma2018b''
     = CArr (Some 1) (Some 1)
   \<and> cache_get (hit 2018 (Ids [Id ''a'', Id ''b'']) (Some 3) (hit 2018 (Id ''a'') (Some 5) None)) ''sum2018a'' = CNum 5"
proof -
  have y: "show_nat 2018 = ''2018''"
    by (simp add: show_nat.simps [of 2018] show_nat.simps [of 201] show_nat.simps [of 20]
        show_nat.simps [of 2] digit_char_def)
  have ka: "''mma'' @ show_nat 2018 @ ''a'' = ''mma2018a''" and kb: "''mma'' @ show_nat 2018 @ ''b'' = ''mma2018b''"
    by (simp_all add: y)
  define c0 where "c0 = cmin 2018 (Id ''a'') (Some 5) None"
  have a0: "cache_get c0 (''mma'' @ show_nat 2018 @ ''a'') = CArr (Some 5) (Some 5)"
    unfolding c0_def by (simp add: Let_def empty_def cache_get_set)
  have "cache_get c0 (''mma'' @ show_nat 2018 @ ''b'') = cache_get None (''mma'' @ show_nat 2018 @ ''b'')"
    unfolding c0_def by (simp add: Let_def empty_def cache_get_set)
  then have b0: "\<not> truthy (cache_get c0 (''mma'' @ show_nat 2018 @ ''b''))"
    by (simp add: cache_get_def)
  have ma: "Id ''a'' \<in> set [Id ''a'', Id ''b'']" and mb: "Id ''b'' \<in> set [Id ''a'', Id ''b'']" by simp_all
  have t3: "take 3 ''sum2018a'' = ''sum''" by simp
  have mm: "min (5::int) 1 = 1" "max (5::int) 1 = 5" "min (5::int) 9 = 5" "max (5::int) 9 = 9" by simp_all
  note th1 = array_ids_update_mma [of 2018 "[Id ''a'', Id ''b'']" "Some 1" c0]
  note th9 = array_ids_update_mma [of 2018 "[Id ''a'', Id ''b'']" "Some 9" c0]
  note th3 = array_ids_update_mma [of 2018 "[Id ''a'', Id ''b'']" "Some 3" "hit 2018 (Id ''a'') (Some 5) None"]
  from th1 ma a0 have "cache_get (hit 2018 (Ids [Id ''a'', Id ''b'']) (Some 1) c0) (''mma'' @ show_nat 2018 @ ''a'')
      = CArr (Some (min 5 1)) (Some (max 5 1))"
    by blast
  then have r1: "cache_get (hit 2018 (Ids [Id ''a'', Id ''b'']) (Some 1) c0) ''mma2018a'' = CArr (Some 1) (Some 5)"
    by (simp only: ka mm)
  from th9 ma a0 have "cache_get (cmax 2018 (Ids [Id ''a'', Id ''b'']) (Some 9) c0) (''mma'' @ show_nat 2018 @ ''a'')
      = CArr (Some (min 5 9)) (Some (max 5 9))"
    by blast
  then have r2: "cache_get (cmax 2018 (Ids [Id ''a'', Id ''b'']) (Some 9) c0) ''mma2018a'' = CArr (Some 5) (Some 9)"
    by (simp only: ka mm)
  from th1 mb b0 have "cache_get (hit 2018 (Ids [Id ''a'', Id ''b'']) (Some 1) c0) (''mma'' @ show_nat 2018 @ ''b'')
      = CArr (Some 1) (Some 1)"
    by blast
  then have r3: "cache_get (hit 2018 (Ids [Id ''a'', Id ''b'']) (Some 1) c0) ''mma2018b'' = CArr (Some 1) (Some 1)"
    by (simp only: kb)
  have s: "cache_get (hit 2018 (Ids [Id ''a'', Id ''b'']) (Some 3) (hit 2018 (Id ''a'') (Some 5) None)) ''sum2018a''
      = cache_get (hit 2018 (Id ''a'') (Some 5) None) ''sum2018a''"
    using th3 t3 by blast
  have s': "cache_get (hit 2018 (Id ''a'') (Some 5) None) ''sum2018a'' = CNum 5"
    by (simp add: y empty_def cache_get_set)
  from r1 r2 r3 s s' show ?thesis unfolding c0_def by simp
qed

section \<open>Verification: batched appends\<close>

lemma concat_limit: "0 < n \<Longrightarrow> concat (limit n xs) = xs"
proof (induction n xs rule: limit.induct)
  case (1 n xs)
  then show ?case by (simp add: limit.simps [of n xs])
qed

lemma limit_groups: "g \<in> set (limit n xs) \<Longrightarrow> g \<noteq> [] \<and> length g \<le> n"
proof (induction n xs rule: limit.induct)
  case (1 n xs)
  show ?case
  proof (cases "n = 0 \<or> xs = []")
    case True
    with "1.prems" show ?thesis by (simp add: limit.simps [of n xs])
  next
    case False
    with "1.prems" have "g = take n xs \<or> g \<in> set (limit n (drop n xs))"
      by (simp add: limit.simps [of n xs])
    with False "1.IH" show ?thesis by auto
  qed
qed

lemma JSONBUFFER_values: "JSONBUFFER argv = 20 \<or> JSONBUFFER argv = 40"
  by (simp add: JSONBUFFER_def)

lemma appended_batches:
  "appended (append_batches errs k gs st)
     = appended st @ map (\<lambda>g. concat (map (\<lambda>i. job_doc i @ NEWLINE) g)) gs"
  by (induction gs arbitrary: k st) (simp_all add: append_batch_def Let_def)

lemma data_file_batches:
  "(\<And>j. errs j = None) \<Longrightarrow>
   data_file (append_batches errs k gs st) = data_file st @ concat (map (\<lambda>i. job_doc i @ NEWLINE) (concat gs))"
  by (induction gs arbitrary: k st) (simp_all add: append_batch_def Let_def)

lemma invoked_batches_callbacks:
  "map fst (invoked (append_batches errs k gs st)) = map fst (invoked st) @ callbacks_of (concat gs)"
proof (induction gs arbitrary: k st)
  case Nil
  then show ?case by (simp add: callbacks_of_def)
next
  case (Cons g gs)
  have "map fst (concat (map (\<lambda>i. case job_callback i of None \<Rightarrow> [] | Some cb \<Rightarrow> [(cb, errs k, 1::nat)]) g))
      = callbacks_of g"
    unfolding callbacks_of_def by (induction g) (simp_all split: option.split)
  then show ?case
    using Cons.IH [of "Suc k" "append_batch (errs k) g st"]
    by (simp add: append_batch_def Let_def callbacks_of_def)
qed

lemma invoked_batches_count:
  "list_all (\<lambda>ev. snd (snd ev) = 1) (invoked st) \<Longrightarrow>
   list_all (\<lambda>ev. snd (snd ev) = 1) (invoked (append_batches errs k gs st))"
proof (induction gs arbitrary: k st)
  case Nil
  then show ?case by simp
next
  case (Cons g gs)
  have "list_all (\<lambda>ev. snd (snd ev) = 1)
      (concat (map (\<lambda>i. case job_callback i of None \<Rightarrow> [] | Some cb \<Rightarrow> [(cb, errs k, 1::nat)]) g))"
    by (induction g) (simp_all split: option.split)
  with Cons.prems have "list_all (\<lambda>ev. snd (snd ev) = 1) (invoked (append_batch (errs k) g st))"
    by (simp add: append_batch_def Let_def)
  then show ?case
    using Cons.IH [of "append_batch (errs k) g st" "Suc k"] by simp
qed

lemma endsWith_iff: "endsWith s suffix \<longleftrightarrow> (\<exists>p. s = p @ suffix)"
proof
  assume "endsWith s suffix"
  then have "s = take (length s - length suffix) s @ suffix"
    using append_take_drop_id [of "length s - length suffix" s] by (simp add: endsWith_def)
  then show "\<exists>p. s = p @ suffix" ..
next
  assume "\<exists>p. s = p @ suffix"
  then show "endsWith s suffix" by (auto simp add: endsWith_def)
qed

text \<open>The record limit: 40 when an argument of the process ends with \<open>nosqlworker.js\<close>, else 20.\<close>

lemma JSONBUFFER_worker:
  "JSONBUFFER argv = (if \<exists>n\<in>set argv. \<exists>p. n = p @ ''nosqlworker.js'' then 40 else 20)"
  by (auto simp add: JSONBUFFER_def list_all_iff endsWith_iff)

text \<open>Every batch but the last one is full.\<close>

lemma limit_full: "list_all (\<lambda>g. length g = n) (butlast (limit n xs))"
proof (induction n xs rule: limit.induct)
  case (1 n xs)
  show ?case
  proof (cases "n = 0 \<or> xs = []")
    case True
    then show ?thesis by (simp add: limit.simps [of n xs])
  next
    case False
    show ?thesis
    proof (cases "limit n (drop n xs) = []")
      case True
      with False show ?thesis by (simp add: limit.simps [of n xs])
    next
      case rest: False
      then have "drop n xs \<noteq> []" by (auto simp add: limit.simps [of n "drop n xs"])
      then have "length (take n xs) = n" by simp
      with False rest "1.IH" show ?thesis by (simp add: limit.simps [of n xs])
    qed
  qed
qed

text \<open>
  Claim C9.  A pass over the pending appends makes one \<open>appendFile\<close> call per batch.  The
  batches are consecutive groups of the pending jobs: every batch but the last holds
  exactly \<open>JSONBUFFER\<close> jobs and the last one at least one and at most that many, where
  \<open>JSONBUFFER\<close> is 40 when an argument of the process ends with \<open>nosqlworker.js\<close> (worker
  mode) and 20 otherwise.  Each call carries the lines of its batch in submission order,
  so that (no call failing) the file grows by the encoded lines in submission order; and
  the callbacks invoked are those of the jobs, in order, each with count 1.
\<close>

theorem append_pass_full_batches:
  "JSONBUFFER argv = (if \<exists>n\<in>set argv. \<exists>p. n = p @ ''nosqlworker.js'' then 40 else 20)
   \<and> concat (limit (JSONBUFFER argv) pending) = pending
   \<and> list_all (\<lambda>g. length g = JSONBUFFER argv) (butlast (limit (JSONBUFFER argv) pending))
   \<and> list_all (\<lambda>g. g \<noteq> [] \<and> length g \<le> JSONBUFFER argv) (limit (JSONBUFFER argv) pending)
   \<and> appended (append_pass argv errs pending \<lparr>data_file = f, appended = [], invoked = []\<rparr>)
       = map (\<lambda>g. concat (map (\<lambda>i. job_doc i @ NEWLINE) g)) (limit (JSONBUFFER argv) pending)
   \<and> ((\<forall>k. errs k = None) \<longrightarrow>
        data_file (append_pass argv errs pending \<lparr>data_file = f, appended = [], invoked = []\<rparr>)
          = f @ concat (map (\<lambda>i. job_doc i @ NEWLINE) pending))
   \<and> map fst (invoked (append_pass argv errs pending \<lparr>data_file = f, appended = [], invoked = []\<rparr>))
       = callbacks_of pending
   \<and> list_all (\<lambda>ev. snd (snd ev) = 1)
       (invoked (append_pass argv errs pending \<lparr>data_file = f, appended = [], invoked = []\<rparr>))"
proof -
  let ?B = "JSONBUFFER argv"
  let ?st = "\<lparr>data_file = f, appended = [], invoked = []\<rparr> :: 'a append_state"
  have pos: "0 < ?B" using JSONBUFFER_values [of argv] by auto
  have w: "?B = (if \<exists>n\<in>set argv. \<exists>p. n = p @ ''nosqlworker.js'' then 40 else 20)"
    by (rule JSONBUFFER_worker)
  have c: "concat (limit ?B pending) = pending" using pos by (rule concat_limit)
  have full: "list_all (\<lambda>g. length g = ?B) (butlast (limit ?B pending))" by (rule limit_full)
  have g: "list_all (\<lambda>g. g \<noteq> [] \<and> length g \<le> ?B) (limit ?B pending)"
    using limit_groups [of _ ?B pending] by (simp add: list_all_iff)
  have a: "appended (append_pass argv errs pending ?st)
      = map (\<lambda>g. concat (map (\<lambda>i. job_doc i @ NEWLINE) g)) (limit ?B pending)"
    by (simp add: append_pass_def appended_batches)
  have fl: "(\<forall>k. errs k = None) \<longrightarrow>
      data_file (append_pass argv errs pending ?st) = f @ concat (map (\<lambda>i. job_doc i @ NEWLINE) pending)"
    using data_file_batches [of errs 0 "limit ?B pending" ?st] c by (simp add: append_pass_def)
  have i: "map fst (invoked (append_pass argv errs pending ?st)) = callbacks_of pending"
    using invoked_batches_callbacks [of errs 0 "limit ?B pending" ?st] c by (simp add: append_pass_def)
  have n: "list_all (\<lambda>ev. snd (snd ev) = 1) (invoked (append_pass argv errs pending ?st))"
    unfolding append_pass_def by (rule invoked_batches_count) simp
  from w c full g a fl i n show ?thesis by (intro conjI)
qed

text \<open>
  In worker mode 45 pending appends go out in two calls, of 40 and of 5 lines; without
  it 21 appends go out in calls of 20 and of 1.
\<close>

theorem append_pass_full_batches_witness:
  "appended (append_pass [''node'', ''/app/nosqlworker.js''] (\<lambda>k. None :: unit option)
       (replicate 45 \<lparr>job_doc = ''{}'', job_callback = Some 7\<rparr>)
       \<lparr>data_file = ''x'', appended = [], invoked = []\<rparr>)
     = [concat (replicate 40 (''{}'' @ NEWLINE)), concat (replicate 5 (''{}'' @ NEWLINE))]
   \<and> appended (append_pass [''node'', ''app.js''] (\<lambda>k. None :: unit option)
       (replicate 21 \<lparr>job_doc = ''{}'', job_callback = Some 7\<rparr>)
       \<lparr>data_file = ''x'', appended = [], invoked = []\<rparr>)
     = [concat (replicate 20 (''{}'' @ NEWLINE)), concat (replicate 1 (''{}'' @ NEWLINE))]
   \<and> data_file (append_pass [''node'', ''app.js''] (\<lambda>k. None :: unit option)
       (replicate 21 \<lparr>job_doc = ''{}'', job_callback = Some 7\<rparr>)
       \<lparr>data_file = ''x'', appended = [], invoked = []\<rparr>)
     = ''x'' @ concat (replicate 21 (''{}'' @ NEWLINE))
   \<and> map fst (invoked (append_pass [''node'', ''app.js''] (\<lambda>k. None :: unit option)
       (replicate 21 \<lparr>job_doc = ''{}'', job_callback = Some 7\<rparr>)
       \<lparr>data_file = ''x'', appended = [], invoked = []\<rparr>)) = replicate 21 7"
proof -
  define job where "job = \<lparr>job_doc = ''{}'', job_callback = Some (7::nat)\<rparr>"
  define errs where "errs = (\<lambda>k::nat. None :: unit option)"
  define st where "st = \<lparr>data_file = ''x'', appended = [], invoked = [] :: (nat \<times> unit option \<times> nat) list\<rparr>"
  have worker: "\<exists>n\<in>set [''node'', ''/app/nosqlworker.js'']. \<exists>p. n = p @ ''nosqlworker.js''"
  proof (intro bexI exI)
    show "''/app/nosqlworker.js'' = ''/app/'' @ ''nosqlworker.js''" by simp
    show "''/app/nosqlworker.js'' \<in> set [''node'', ''/app/nosqlworker.js'']" by simp
  qed
  have plain: "\<not> (\<exists>n\<in>set [''node'', ''app.js'']. \<exists>p. n = p @ ''nosqlworker.js'')"
  proof -
    have "\<not> endsWith ''node'' ''nosqlworker.js''" "\<not> endsWith ''app.js'' ''nosqlworker.js''"
      by (simp_all add: endsWith_def)
    then show ?thesis by (simp add: endsWith_iff)
  qed
  note thw = append_pass_full_batches [of "[''node'', ''/app/nosqlworker.js'']" "replicate 45 job" errs "''x''"]
  note thp = append_pass_full_batches [of "[''node'', ''app.js'']" "replicate 21 job" errs "''x''"]
  from thw worker have bw: "JSONBUFFER [''node'', ''/app/nosqlworker.js''] = 40" by simp
  from thp plain have bp: "JSONBUFFER [''node'', ''app.js''] = 20" by simp
  have lw: "limit 40 (replicate 45 job) = [replicate 40 job, replicate 5 job]"
    by (simp add: limit.simps [of 40 "replicate 45 job"] limit.simps [of 40 "replicate 5 job"]
        limit.simps [of 40 "[]"])
  have lp: "limit 20 (replicate 21 job) = [replicate 20 job, replicate 1 job]"
    by (simp add: limit.simps [of 20 "replicate 21 job"] limit.simps [of 20 "replicate 1 job"]
        limit.simps [of 20 "[job]"] limit.simps [of 20 "[]"])
  have enc: "\<And>k. concat (map (\<lambda>i. job_doc i @ NEWLINE) (replicate k job)) = concat (replicate k (''{}'' @ NEWLINE))"
    by (simp add: job_def map_replicate)
  from thw have "appended (append_pass [''node'', ''/app/nosqlworker.js''] errs (replicate 45 job) st)
      = map (\<lambda>g. concat (map (\<lambda>i. job_doc i @ NEWLINE) g))
          (limit (JSONBUFFER [''node'', ''/app/nosqlworker.js'']) (replicate 45 job))"
    unfolding st_def by blast
  then have a: "appended (append_pass [''node'', ''/app/nosqlworker.js''] errs (replicate 45 job) st)
      = [concat (replicate 40 (''{}'' @ NEWLINE)), concat (replicate 5 (''{}'' @ NEWLINE))]"
    by (simp only: bw lw list.map enc)
  from thp have "appended (append_pass [''node'', ''app.js''] errs (replicate 21 job) st)
      = map (\<lambda>g. concat (map (\<lambda>i. job_doc i @ NEWLINE) g)) (limit (JSONBUFFER [''node'', ''app.js'']) (replicate 21 job))"
    unfolding st_def by blast
  then have b: "appended (append_pass [''node'', ''app.js''] errs (replicate 21 job) st)
      = [concat (replicate 20 (''{}'' @ NEWLINE)), concat (replicate 1 (''{}'' @ NEWLINE))]"
    by (simp only: bp lp list.map enc)
  have ok: "\<forall>k. errs k = None" by (simp add: errs_def)
  from thp ok have "data_file (append_pass [''node'', ''app.js''] errs (replicate 21 job) st)
      = ''x'' @ concat (map (\<lambda>i. job_doc i @ NEWLINE) (replicate 21 job))"
    unfolding st_def by blast
  then have f: "data_file (append_pass [''node'', ''app.js''] errs (replicate 21 job) st)
      = ''x'' @ concat (replicate 21 (''{}'' @ NEWLINE))"
    by (simp only: enc)
  from thp have "map fst (invoked (append_pass [''node'', ''app.js''] errs (replicate 21 job) st))
      = callbacks_of (replicate 21 job)"
    unfolding st_def by blast
  moreover have "callbacks_of (replicate 21 job) = replicate 21 7"
    by (simp add: callbacks_of_def job_def map_replicate)
  ultimately have i: "map fst (invoked (append_pass [''node'', ''app.js''] errs (replicate 21 job) st)) = replicate 21 7"
    by simp
  from a b f i show ?thesis unfolding job_def errs_def st_def by (intro conjI)
qed

section \<open>Verification: in-place write or tombstone and append\<close>

lemma fs_apply_in_place:
  "length new = length old \<Longrightarrow>
   fs_apply (Write (new @ NEWLINE) (length pre)) (pre @ old @ NEWLINE @ post) = pre @ new @ NEWLINE @ post"
  by simp

text \<open>
  Claim C2, as the code has it.  Let the file hold the line \<open>old\<close> at the position the
  stream reported, and let \<open>upd\<close> be the new encoding of the matched document.  If \<open>upd\<close> is
  the old text, nothing is written.  Otherwise, if \<open>upd\<close> has as many UTF-16 code units and
  as many bytes as \<open>old\<close>, the line is overwritten in place and the rest of the file is
  untouched.  In every other case (the line starting with a one-byte character, as every
  document and row does) the first byte of the line becomes \<open>-\<close> at its position, the rest
  of the file is untouched, and \<open>upd\<close> is appended at the end of the file.
\<close>

theorem update_write_effect:
  assumes rec: "rec = \<lparr>rec_doc = old, rec_length = length old, rec_position = length pre\<rparr>"
    and f: "f = pre @ old @ NEWLINE @ post"
  shows "(upd = old \<longrightarrow> update_write rec upd = [] \<and> fs_run (update_write rec upd) f = f)
    \<and> (upd \<noteq> old \<and> js_length old = js_length upd \<and> byteLength old = byteLength upd \<longrightarrow>
         update_write rec upd = [Write (upd @ NEWLINE) (length pre)]
         \<and> fs_run (update_write rec upd) f = pre @ upd @ NEWLINE @ post)
    \<and> (upd \<noteq> old \<and> \<not> (js_length old = js_length upd \<and> byteLength old = byteLength upd) \<longrightarrow>
         update_write rec upd = [Write (CHR ''-'' # substring1 old @ NEWLINE) (length pre), Write2 (upd @ NEWLINE)]
         \<and> (\<forall>c rest. old = c # rest \<and> (of_char c :: nat) < 128 \<longrightarrow>
               fs_run (update_write rec upd) f = pre @ (CHR ''-'' # rest) @ NEWLINE @ post @ upd @ NEWLINE))"
proof -
  have a: "upd = old \<longrightarrow> update_write rec upd = [] \<and> fs_run (update_write rec upd) f = f"
    by (simp add: update_write_def rec fs_run_def)
  have b: "upd \<noteq> old \<and> js_length old = js_length upd \<and> byteLength old = byteLength upd \<longrightarrow>
         update_write rec upd = [Write (upd @ NEWLINE) (length pre)]
         \<and> fs_run (update_write rec upd) f = pre @ upd @ NEWLINE @ post"
    by (simp add: update_write_def rec f fs_run_def byteLength_def)
  have c1: "upd \<noteq> old \<and> \<not> (js_length old = js_length upd \<and> byteLength old = byteLength upd) \<longrightarrow>
         update_write rec upd = [Write (CHR ''-'' # substring1 old @ NEWLINE) (length pre), Write2 (upd @ NEWLINE)]"
    by (auto simp add: update_write_def rec byteLength_def)
  have c2: "\<And>c rest. old = c # rest \<Longrightarrow> (of_char c :: nat) < 128 \<Longrightarrow>
      fs_run [Write (CHR ''-'' # substring1 old @ NEWLINE) (length pre), Write2 (upd @ NEWLINE)] f
        = pre @ (CHR ''-'' # rest) @ NEWLINE @ post @ upd @ NEWLINE"
    by (simp add: fs_run_def f substring1_def)
  from a b c1 c2 show ?thesis by metis
qed

lemma js_length_Cons: "js_length (c # cs) = units_of_byte c + js_length cs"
  by (simp add: js_length_def)

lemma js_length_Nil: "js_length [] = 0"
  by (simp add: js_length_def)

theorem update_write_effect_witness:
  \<open>fs_run (update_write \<lparr>rec_doc = ''{"b":true }'', rec_length = 11, rec_position = 3\<rparr>
        ''{"b":false}'')
      (''{}'' @ NEWLINE @ ''{"b":true }'' @ NEWLINE @ ''[]'' @ NEWLINE)
    = ''{}'' @ NEWLINE @ ''{"b":false}'' @ NEWLINE @ ''[]'' @ NEWLINE
   \<and> fs_run (update_write \<lparr>rec_doc = ''{"b":false}'', rec_length = 11, rec_position = 3\<rparr>
        ''{"b":false,"n":5}'')
      (''{}'' @ NEWLINE @ ''{"b":false}'' @ NEWLINE @ ''[]'' @ NEWLINE)
    = ''{}'' @ NEWLINE @ ''-"b":false}'' @ NEWLINE @ ''[]'' @ NEWLINE
        @ ''{"b":false,"n":5}'' @ NEWLINE\<close>
proof -
  let ?pre = \<open>''{}'' @ NEWLINE\<close>
  let ?post = \<open>''[]'' @ NEWLINE\<close>
  let ?a = \<open>''{"b":true }''\<close>
  let ?b = \<open>''{"b":false}''\<close>
  let ?c = \<open>''{"b":false,"n":5}''\<close>
  have p: "length ?pre = 3" by (simp add: NEWLINE_def)
  note t1 = update_write_effect [where old = ?a and pre = ?pre and post = ?post and upd = ?b, OF refl refl]
  note t2 = update_write_effect [where old = ?b and pre = ?pre and post = ?post and upd = ?c, OF refl refl]
  have h1: "?b \<noteq> ?a \<and> js_length ?a = js_length ?b \<and> byteLength ?a = byteLength ?b"
    by (simp add: js_length_Cons js_length_Nil units_of_byte_def byteLength_def)
  have h2: "?c \<noteq> ?b \<and> \<not> (js_length ?b = js_length ?c \<and> byteLength ?b = byteLength ?c)"
    by (simp add: byteLength_def)
  have h3: \<open>?b = CHR ''{'' # ''"b":false}'' \<and> (of_char (CHR ''{'') :: nat) < 128\<close>
    by simp
  from t1 h1 have r1: "fs_run (update_write \<lparr>rec_doc = ?a, rec_length = length ?a, rec_position = length ?pre\<rparr> ?b)
      (?pre @ ?a @ NEWLINE @ ?post) = ?pre @ ?b @ NEWLINE @ ?post"
    by blast
  from t2 h2 h3 have r2: \<open>fs_run (update_write \<lparr>rec_doc = ?b, rec_length = length ?b, rec_position = length ?pre\<rparr> ?c)
      (?pre @ ?b @ NEWLINE @ ?post)
      = ?pre @ (CHR ''-'' # ''"b":false}'') @ NEWLINE @ ?post @ ?c @ NEWLINE\<close>
    by blast
  have l: "length ?a = 11" "length ?b = 11" by simp_all
  from r1 r2 show ?thesis unfolding p l by simp
qed

text \<open>
  The claim as stated fails where two encodings have the same number of bytes but not
  the same number of code units: the line \<open>{"a":"\<dots>"}\<close> with the two-byte character
  U+00E9 (bytes C3 A9) as value and the new encoding \<open>{"a":"xy"}\<close> both take 10 bytes, and
  the code does not write in place but rewrites the old line and appends.
\<close>

theorem update_same_bytes_not_in_place:
  \<open>byteLength ''{"a":"xy"}'' = byteLength (''{"a":"'' @ [CHR 0xC3, CHR 0xA9] @ ''"}'')
   \<and> update_write \<lparr>rec_doc = ''{"a":"'' @ [CHR 0xC3, CHR 0xA9] @ ''"}'',
          rec_length = byteLength (''{"a":"'' @ [CHR 0xC3, CHR 0xA9] @ ''"}''), rec_position = 0\<rparr>
        ''{"a":"xy"}''
     = [Write (''-"a":"'' @ [CHR 0xC3, CHR 0xA9] @ ''"}'' @ NEWLINE) 0, Write2 (''{"a":"xy"}'' @ NEWLINE)]\<close>
  by (simp add: update_write_def byteLength_def js_length_Cons js_length_Nil units_of_byte_def substring1_def)

section \<open>Verification: the boolean rewrite keeps the length\<close>

lemma join_middle:
  "join sep (xs @ x # ys)
     = (if xs = [] then [] else join sep xs @ sep) @ x @ (if ys = [] then [] else sep @ join sep ys)"
proof (induction sep xs rule: join.induct)
  case (1 sep)
  then show ?case by (cases ys) simp_all
next
  case (2 sep x')
  then show ?case by (cases ys) simp_all
next
  case (3 sep x' y rest)
  then show ?case by simp
qed

lemma REGBOOL_nth:
  "length REGBOOL = 6" "i < 6 \<Longrightarrow> 0 < i \<Longrightarrow> REGBOOL ! i \<noteq> CHR 0x22"
proof -
  show "length REGBOOL = 6" by (simp add: REGBOOL_def)
  assume "i < 6" "0 < i"
  then consider "i = 1" | "i = 2" | "i = 3" | "i = 4" | "i = 5" by linarith
  then show "REGBOOL ! i \<noteq> CHR 0x22"
    by cases (simp_all add: REGBOOL_def)
qed

text \<open>A match cannot reach into a text that starts with a quote.\<close>

lemma take6_append:
  assumes "b = [] \<or> hd b = CHR 0x22" and "x \<noteq> []"
  shows "(take 6 (x @ b) = REGBOOL) = (take 6 x = REGBOOL)"
proof (cases "6 \<le> length x")
  case True
  then show ?thesis by simp
next
  case False
  then have short: "length x < 6" by simp
  have "take 6 x \<noteq> REGBOOL"
  proof
    assume "take 6 x = REGBOOL"
    then have "length (take 6 x) = 6" by (simp add: REGBOOL_nth(1))
    with short show False by simp
  qed
  moreover have "take 6 (x @ b) \<noteq> REGBOOL"
  proof
    assume eq: "take 6 (x @ b) = REGBOOL"
    then have "length (take 6 (x @ b)) = 6" by (simp add: REGBOOL_nth(1))
    with short have b: "b \<noteq> []" by auto
    with assms(1) have hd: "hd b = CHR 0x22" by simp
    from short have "take 6 (x @ b) ! length x = (x @ b) ! length x" by (rule nth_take)
    also have "\<dots> = hd b" using b by (simp add: nth_append hd_conv_nth)
    finally have "REGBOOL ! length x = CHR 0x22" using eq hd by simp
    moreover have "0 < length x" using assms(2) by simp
    ultimately show False using REGBOOL_nth(2) [of "length x"] short by simp
  qed
  ultimately show ?thesis by simp
qed

lemma replace_REGBOOL_append:
  "b = [] \<or> hd b = CHR 0x22 \<Longrightarrow> replace_REGBOOL (a @ b) = replace_REGBOOL a @ replace_REGBOOL b"
proof (induction a rule: replace_REGBOOL.induct)
  case 1
  then show ?case by simp
next
  case (2 c cs)
  have t: "(take 6 ((c # cs) @ b) = REGBOOL) = (take 6 (c # cs) = REGBOOL)"
    using "2.prems" by (intro take6_append) simp_all
  show ?case
  proof (cases "take 6 (c # cs) = REGBOOL")
    case True
    then have "length (take 6 (c # cs)) = 6" by (simp add: REGBOOL_nth(1))
    then have "5 \<le> length cs" by (simp split: if_splits)
    then have d: "drop 5 (cs @ b) = drop 5 cs @ b" by simp
    from True t have "replace_REGBOOL ((c # cs) @ b) = JSONBOOL @ replace_REGBOOL (drop 5 (cs @ b))"
      by simp
    also have "\<dots> = JSONBOOL @ replace_REGBOOL (drop 5 cs) @ replace_REGBOOL b"
      unfolding d using "2.IH"(1) [OF True "2.prems"] by simp
    finally show ?thesis using True by simp
  next
    case False
    with t have "replace_REGBOOL ((c # cs) @ b) = c # replace_REGBOOL (cs @ b)" by simp
    with False "2.IH"(2) [OF False "2.prems"] show ?thesis by simp
  qed
qed

lemma replace_true:
  \<open>replace_REGBOOL (''":true'' @ post) = ''":true '' @ replace_REGBOOL post\<close>
  by (simp add: REGBOOL_def JSONBOOL_def)

lemma replace_false:
  \<open>replace_REGBOOL (''":false'' @ post) = ''":false'' @ replace_REGBOOL post\<close>
  by (simp add: REGBOOL_def)

lemma length_replace_toggle:
  \<open>length (replace_REGBOOL (pre @ ''":true'' @ post)) = length (replace_REGBOOL (pre @ ''":false'' @ post))\<close>
proof -
  have \<open>replace_REGBOOL (pre @ ''":true'' @ post) = replace_REGBOOL pre @ ''":true '' @ replace_REGBOOL post\<close>
    using replace_REGBOOL_append [of \<open>''":true'' @ post\<close> pre] replace_true [of post] by simp
  moreover have \<open>replace_REGBOOL (pre @ ''":false'' @ post) = replace_REGBOOL pre @ ''":false'' @ replace_REGBOOL post\<close>
    using replace_REGBOOL_append [of \<open>''":false'' @ post\<close> pre] replace_false [of post] by simp
  ultimately show ?thesis by simp
qed

text \<open>
  The texts of a document and of its toggled copy differ in one place only: behind a
  closing quote and a colon, one reads \<open>true\<close> and the other \<open>false\<close>.
\<close>

lemma toggle_texts:
  \<open>toggle d d' \<Longrightarrow>
   \<exists>pre post. (JSON_stringify d = pre @ ''":true'' @ post \<and> JSON_stringify d' = pre @ ''":false'' @ post)
      \<or> (JSON_stringify d = pre @ ''":false'' @ post \<and> JSON_stringify d' = pre @ ''":true'' @ post)\<close>
proof (induction rule: toggle.induct)
  case (field xs k b ys)
  let ?f = "\<lambda>kv. json_quote (fst kv) @ '':'' @ JSON_stringify (snd kv)"
  define A where "A = ''{'' @ (if map ?f xs = [] then [] else join '','' (map ?f xs) @ '','')
      @ CHR 0x22 # concat (map json_escape k)"
  define B where "B = (if map ?f ys = [] then [] else '','' @ join '','' (map ?f ys)) @ ''}''"
  have t: \<open>JSON_stringify (JObj (xs @ (k, JBool True) # ys)) = A @ ''":true'' @ B\<close>
    by (simp add: join_middle json_quote_def A_def B_def)
  have f: \<open>JSON_stringify (JObj (xs @ (k, JBool False) # ys)) = A @ ''":false'' @ B\<close>
    by (simp add: join_middle json_quote_def A_def B_def)
  show ?case
  proof (cases b)
    case True
    then have "JBool b = JBool True" "JBool (\<not> b) = JBool False" by simp_all
    with t f show ?thesis by (simp only:) blast
  next
    case False
    then have "JBool b = JBool False" "JBool (\<not> b) = JBool True" by simp_all
    with t f show ?thesis by (simp only:) blast
  qed
next
  case (in_object v v' xs k ys)
  let ?f = "\<lambda>kv. json_quote (fst kv) @ '':'' @ JSON_stringify (snd kv)"
  let ?A = "''{'' @ (if map ?f xs = [] then [] else join '','' (map ?f xs) @ '','')
      @ json_quote k @ '':''"
  let ?B = "(if map ?f ys = [] then [] else '','' @ join '','' (map ?f ys)) @ ''}''"
  have s: "\<And>w. JSON_stringify (JObj (xs @ (k, w) # ys)) = ?A @ JSON_stringify w @ ?B"
    by (simp add: join_middle)
  from in_object.IH obtain pre post where
    \<open>(JSON_stringify v = pre @ ''":true'' @ post \<and> JSON_stringify v' = pre @ ''":false'' @ post)
      \<or> (JSON_stringify v = pre @ ''":false'' @ post \<and> JSON_stringify v' = pre @ ''":true'' @ post)\<close>
    by blast
  then have \<open>(JSON_stringify (JObj (xs @ (k, v) # ys)) = (?A @ pre) @ ''":true'' @ (post @ ?B)
        \<and> JSON_stringify (JObj (xs @ (k, v') # ys)) = (?A @ pre) @ ''":false'' @ (post @ ?B))
      \<or> (JSON_stringify (JObj (xs @ (k, v) # ys)) = (?A @ pre) @ ''":false'' @ (post @ ?B)
        \<and> JSON_stringify (JObj (xs @ (k, v') # ys)) = (?A @ pre) @ ''":true'' @ (post @ ?B))\<close>
    unfolding s by auto
  then show ?case by blast
next
  case (in_array v v' xs ys)
  let ?A = "''['' @ (if map JSON_stringify xs = [] then [] else join '','' (map JSON_stringify xs) @ '','')"
  let ?B = "(if map JSON_stringify ys = [] then [] else '','' @ join '','' (map JSON_stringify ys)) @ '']''"
  have s: "\<And>w. JSON_stringify (JArr (xs @ w # ys)) = ?A @ JSON_stringify w @ ?B"
    by (simp add: join_middle)
  from in_array.IH obtain pre post where
    \<open>(JSON_stringify v = pre @ ''":true'' @ post \<and> JSON_stringify v' = pre @ ''":false'' @ post)
      \<or> (JSON_stringify v = pre @ ''":false'' @ post \<and> JSON_stringify v' = pre @ ''":true'' @ post)\<close>
    by blast
  then have \<open>(JSON_stringify (JArr (xs @ v # ys)) = (?A @ pre) @ ''":true'' @ (post @ ?B)
        \<and> JSON_stringify (JArr (xs @ v' # ys)) = (?A @ pre) @ ''":false'' @ (post @ ?B))
      \<or> (JSON_stringify (JArr (xs @ v # ys)) = (?A @ pre) @ ''":false'' @ (post @ ?B)
        \<and> JSON_stringify (JArr (xs @ v' # ys)) = (?A @ pre) @ ''":true'' @ (post @ ?B))\<close>
    unfolding s by auto
  then show ?case by blast
qed

text \<open>
  Claim C6.  Switching any boolean field of a document between \<open>true\<close> and \<open>false\<close> leaves
  the length in bytes of the encoded line as it was.
\<close>

theorem toggle_keeps_encoded_length:
  "toggle d d' \<Longrightarrow> byteLength (encode d) = byteLength (encode d')"
proof -
  assume "toggle d d'"
  then obtain pre post where
    \<open>(JSON_stringify d = pre @ ''":true'' @ post \<and> JSON_stringify d' = pre @ ''":false'' @ post)
      \<or> (JSON_stringify d = pre @ ''":false'' @ post \<and> JSON_stringify d' = pre @ ''":true'' @ post)\<close>
    using toggle_texts by blast
  then show ?thesis
    unfolding encode_def byteLength_def using length_replace_toggle [of pre post] by auto
qed

theorem toggle_keeps_encoded_length_witness:
  \<open>toggle (JObj [(''id'', JStr ''X''), (''on'', JBool True)]) (JObj [(''id'', JStr ''X''), (''on'', JBool False)])
   \<and> byteLength (encode (JObj [(''id'', JStr ''X''), (''on'', JBool True)]))
       = byteLength (encode (JObj [(''id'', JStr ''X''), (''on'', JBool False)]))
   \<and> encode (JObj [(''id'', JStr ''X''), (''on'', JBool True)]) = ''{"id":"X","on":true }''
   \<and> encode (JObj [(''id'', JStr ''X''), (''on'', JBool False)]) = ''{"id":"X","on":false}''\<close>
proof -
  have t: "toggle (JObj ([(''id'', JStr ''X'')] @ (''on'', JBool True) # []))
      (JObj ([(''id'', JStr ''X'')] @ (''on'', JBool (\<not> True)) # []))"
    by (rule toggle.field)
  then have t': "toggle (JObj [(''id'', JStr ''X''), (''on'', JBool True)])
      (JObj [(''id'', JStr ''X''), (''on'', JBool False)])"
    by simp
  have e1: \<open>encode (JObj [(''id'', JStr ''X''), (''on'', JBool True)]) = ''{"id":"X","on":true }''\<close>
    by (simp add: encode_def json_quote_def json_escape_def REGBOOL_def JSONBOOL_def)
  have e2: \<open>encode (JObj [(''id'', JStr ''X''), (''on'', JBool False)]) = ''{"id":"X","on":false}''\<close>
    by (simp add: encode_def json_quote_def json_escape_def REGBOOL_def JSONBOOL_def)
  from toggle_keeps_encoded_length [OF t'] t' e1 e2 show ?thesis by blast
qed

section \<open>Verification: first()\<close>



















text \<open>
  With a scalar join the single document of a \<open>first()\<close> query does not reach the callback:
  storing the joined data raises a TypeError (\<open>item[join.b]\<close> outside the loop that sets
  \<open>item\<close>), and without a match the join never calls \<open>next\<close>.
\<close>

lemma first_with_scalar_join:
  "reader2_callbacks nat_env plain_values
      [new_reader (builder_first (new_options\<lparr>opt_join := Some [\<lparr>j_field = ''n'', j_b = ''id'',
            j_scalartype = True, j_builder_first = False\<rparr>]\<rparr>)) Some] [7]
     = [Thrown TypeError]
   \<and> reader2_callbacks nat_env plain_values
      [new_reader (builder_first (new_options\<lparr>opt_join := Some [\<lparr>j_field = ''n'', j_b = ''id'',
            j_scalartype = True, j_builder_first = False\<rparr>]\<rparr>)) (\<lambda>d. None)] [7]
     = [NotCalled]"
  by (simp add: new_reader_def builder_first_def builder_take_def new_options_def reader2_callbacks_def
      first_flag_def sort_set_def reader_step_def inlinesort_def scalar_case_def Let_def reader_callback_def
      reader_output_def scalar_set_def deliver_def plain_output_def first_of_def callback2_def
      errorhandling_def response_truthy_def is_array_def join_stuck_def join_values_def merge_throws_def
      join_items_null_def plain_values_def nat_env_def)

section \<open>Verification: numbers and their text\<close>

lemma digit_val_digit_char: "d < 10 \<Longrightarrow> digit_val (digit_char d) = Some d"
proof -
  assume "d < 10"
  then consider "d = 0" | "d = 1" | "d = 2" | "d = 3" | "d = 4" | "d = 5" | "d = 6" | "d = 7"
    | "d = 8" | "d = 9"
    by atomize_elim arith
  then show ?thesis
    by cases (simp_all add: digit_val_def digit_values_def digit_char_def)
qed

lemma is_digit_digit_char: "d < 10 \<Longrightarrow> is_digit (digit_char d)"
  by (simp add: is_digit_def digit_val_digit_char)

lemma show_nat_digits: "show_nat n \<noteq> [] \<and> list_all is_digit (show_nat n)"
proof (induction n rule: show_nat.induct)
  case (1 n)
  show ?case
  proof (cases "n < 10")
    case True
    then show ?thesis by (simp add: show_nat.simps [of n] is_digit_digit_char)
  next
    case False
    with 1 show ?thesis by (simp add: show_nat.simps [of n] is_digit_digit_char)
  qed
qed

lemma parse_nat_append:
  "parse_nat acc (xs @ ys) = (case parse_nat acc xs of None \<Rightarrow> None | Some a \<Rightarrow> parse_nat a ys)"
  by (induction xs arbitrary: acc) (simp_all split: option.split)

lemma parse_nat_show_nat: "parse_nat 0 (show_nat n) = Some n"
proof (induction n rule: show_nat.induct)
  case (1 n)
  show ?case
  proof (cases "n < 10")
    case True
    then show ?thesis by (simp add: show_nat.simps [of n] digit_val_digit_char)
  next
    case False
    with 1 have "parse_nat 0 (show_nat (n div 10)) = Some (n div 10)" by simp
    with False show ?thesis
      by (simp add: show_nat.simps [of n] parse_nat_append digit_val_digit_char)
  qed
qed

lemma is_digit_simps:
  "\<not> is_digit (CHR ''-'')" "\<not> is_digit (CHR ''+'')" "\<not> is_digit (CHR ''|'')" "\<not> is_digit (CHR ''T'')"
  "\<not> is_digit (CHR 0x0A)" "\<not> is_digit (CHR 0x0D)" "\<not> is_digit (CHR ''%'')" "\<not> is_digit (CHR ''='')"
  "\<not> is_digit (CHR '';'')" "\<not> is_digit (CHR ''X'')"
  by (simp_all add: is_digit_def digit_val_def digit_values_def)

lemma to_number_show_int: "to_number (show_int i) = Number i"
proof (cases "i < 0")
  case True
  from show_nat_digits [of "nat (- i)"] have "show_nat (nat (- i)) \<noteq> []" by simp
  with True show ?thesis
    by (simp add: show_int_def to_number_def parse_nat_show_nat)
next
  case False
  from show_nat_digits [of "nat i"] obtain c cs where
    c: "show_nat (nat i) = c # cs" "is_digit c"
    by (cases "show_nat (nat i)") auto
  then have "c \<noteq> CHR ''-''" "c \<noteq> CHR ''+''" using is_digit_simps by auto
  moreover have "parse_nat 0 (c # cs) = Some (nat i)" using parse_nat_show_nat [of "nat i"] c by simp
  ultimately show ?thesis using False c
    by (simp add: show_int_def to_number_def)
qed

text \<open>The text of an integer consists of digits behind an optional minus sign.\<close>

lemma show_int_chars: "c \<in> set (show_int i) \<Longrightarrow> is_digit c \<or> c = CHR ''-''"
  using show_nat_digits [of "nat i"] show_nat_digits [of "nat (- i)"]
  by (auto simp add: show_int_def list_all_iff split: if_splits)

lemma show_int_not_empty: "show_int i \<noteq> []"
  using show_nat_digits [of "nat i"] by (simp add: show_int_def)

section \<open>Verification: the escapes\<close>

lemma REGTESCAPETEST_iff:
  "REGTESCAPETEST val = (CHR ''|'' \<in> set val \<or> CHR 0x0A \<in> set val \<or> CHR 0x0D \<in> set val)"
  by (auto simp add: REGTESCAPETEST_def list_ex_iff)

lemma replace_REGTESCAPE_clean: "\<not> REGTESCAPETEST val \<Longrightarrow> replace_REGTESCAPE val = val"
  by (induction val) (auto simp add: REGTESCAPETEST_iff replace_REGTESCAPE_def regtescape_def)

lemma replace_REGTESCAPE_no_bar: "CHR ''|'' \<notin> set (replace_REGTESCAPE val)"
  by (induction val) (auto simp add: replace_REGTESCAPE_def regtescape_def)

lemma replace_REGTESCAPE_simps:
  "replace_REGTESCAPE [] = []"
  "replace_REGTESCAPE (c # cs) = regtescape c @ replace_REGTESCAPE cs"
  by (simp_all add: replace_REGTESCAPE_def)

lemma replace_REGTUNESCAPE_clean: "\<not> has_token val \<Longrightarrow> replace_REGTUNESCAPE val = val"
  by (induction val rule: has_token.induct) simp_all

lemma take2_escaped:
  assumes "take 2 (replace_REGTESCAPE cs) = [a, b]" and "a \<noteq> CHR ''%''" and "b \<noteq> CHR ''%''"
  shows "take 2 cs = [a, b]"
proof (cases cs)
  case Nil
  with assms show ?thesis by (simp add: replace_REGTESCAPE_simps)
next
  case (Cons x xs)
  with assms have x: "regtescape x = [x]" "x = a"
    by (auto simp add: replace_REGTESCAPE_simps regtescape_def split: if_splits)
  show ?thesis
  proof (cases xs)
    case Nil
    with Cons assms x show ?thesis by (simp add: replace_REGTESCAPE_simps)
  next
    case (Cons y ys)
    with \<open>cs = x # xs\<close> assms x have "regtescape y = [y]" "y = b"
      by (auto simp add: replace_REGTESCAPE_simps regtescape_def split: if_splits)
    with Cons \<open>cs = x # xs\<close> x show ?thesis by simp
  qed
qed

lemma REGTUNESCAPE_Cons:
  "REGTUNESCAPE (c # t) = (c = CHR ''%'' \<and> (t = ''7C'' \<or> t = ''0D'' \<or> t = ''0A''))"
  by (auto simp add: REGTUNESCAPE_def)

text \<open>Unescaping undoes escaping on a text that holds none of the escape sequences.\<close>

lemma unescape_escape: "\<not> has_token val \<Longrightarrow> replace_REGTUNESCAPE (replace_REGTESCAPE val) = val"
proof (induction val)
  case Nil
  then show ?case by (simp add: replace_REGTESCAPE_simps)
next
  case (Cons c cs)
  then have nt: "\<not> REGTUNESCAPE (take 3 (c # cs))" and IH: "replace_REGTUNESCAPE (replace_REGTESCAPE cs) = cs"
    by simp_all
  show ?case
  proof (cases "c = CHR ''|'' \<or> c = CHR 0x0A \<or> c = CHR 0x0D")
    case True
    then show ?thesis
      using IH by (auto simp add: replace_REGTESCAPE_simps regtescape_def REGTUNESCAPE_def regtescapereverse_def)
  next
    case False
    then have e: "replace_REGTESCAPE (c # cs) = c # replace_REGTESCAPE cs"
      by (simp add: replace_REGTESCAPE_simps regtescape_def)
    have "\<not> REGTUNESCAPE (take 3 (c # replace_REGTESCAPE cs))"
    proof
      assume "REGTUNESCAPE (take 3 (c # replace_REGTESCAPE cs))"
      then have c: "c = CHR ''%''" and t: "take 2 (replace_REGTESCAPE cs) = ''7C''
          \<or> take 2 (replace_REGTESCAPE cs) = ''0D'' \<or> take 2 (replace_REGTESCAPE cs) = ''0A''"
        by (simp_all add: REGTUNESCAPE_Cons)
      from t have "take 2 cs = ''7C'' \<or> take 2 cs = ''0D'' \<or> take 2 cs = ''0A''"
        using take2_escaped [of cs] by auto
      with c have "REGTUNESCAPE (take 3 (c # cs))" by (simp add: REGTUNESCAPE_Cons)
      with nt show False by simp
    qed
    with e IH show ?thesis by simp
  qed
qed

section \<open>Verification: splitting a row\<close>

lemma split_on_clean: "sep \<notin> set v \<Longrightarrow> split_on sep cur (v @ rest) = split_on sep (cur @ v) rest"
  by (induction v arbitrary: cur) auto

lemma split_on_fields:
  "\<forall>v\<in>set vals. sep \<notin> set v \<Longrightarrow>
   split_on sep cur (concat (map (\<lambda>v. sep # v) vals)) = cur # vals"
proof (induction vals arbitrary: cur)
  case Nil
  then show ?case by simp
next
  case (Cons v vals)
  then have "split_on sep [] (v @ concat (map (\<lambda>v. sep # v) vals)) = v # vals"
    by (simp add: split_on_clean)
  then show ?case by simp
qed

lemma split_row:
  "sep \<notin> set m \<Longrightarrow> \<forall>v\<in>set vals. sep \<notin> set v \<Longrightarrow>
   split sep (m @ concat (map (\<lambda>v. sep # v) vals)) = m # vals"
  unfolding split_def using split_on_clean [of sep m "[]"] split_on_fields [of vals sep m] by simp

section \<open>Verification: the row codec\<close>

lemma replace_REGTESCAPE_empty: "(replace_REGTESCAPE val = []) = (val = [])"
  by (cases val) (simp_all add: replace_REGTESCAPE_simps regtescape_def)

lemma JSON_stringify_not_empty: "JSON_stringify j \<noteq> []"
  by (cases j) (simp_all add: show_int_not_empty json_quote_def)

lemma representable_column:
  assumes "representable P S doc" and "key \<in> set (s_keys S)"
  obtains type pos val where "s_schema S key = Some (type, pos)"
    and "column_value P type (doc key) = Inr val" and "cell_text P S doc key = to_str P val"
proof -
  from assms obtain type pos where sch: "s_schema S key = Some (type, pos)"
    by (fastforce simp add: representable_def split: option.splits)
  with assms have "\<exists>val. column_value P type (doc key) = Inr val"
    by (cases type) (fastforce simp add: representable_def)+
  then obtain val where "column_value P type (doc key) = Inr val" by blast
  with sch that show thesis by (simp add: cell_text_def)
qed

lemma stringify_loop_ok:
  assumes rep: "representable P S doc"
  shows "set ks \<subseteq> set (s_keys S) \<Longrightarrow>
    length (filter (needs_escape P S doc) ks) \<le> (if esc then 0 else 1) \<Longrightarrow>
    stringify_loop P S doc ks esc out
      = Inr (esc \<or> (\<exists>k\<in>set ks. needs_escape P S doc k),
             out @ concat (map (\<lambda>k. CHR ''|'' # encoded_text P S doc k) ks))"
proof (induction ks arbitrary: esc out)
  case Nil
  then show ?case by simp
next
  case (Cons key ks)
  from Cons.prems(1) have key: "key \<in> set (s_keys S)" and ks: "set ks \<subseteq> set (s_keys S)" by simp_all
  from representable_column [OF rep key] obtain type pos val where
    sch: "s_schema S key = Some (type, pos)" and cv: "column_value P type (doc key) = Inr val"
    and ctext: "cell_text P S doc key = to_str P val"
    by blast
  have tc: "text_column S key = (type = CString \<or> type = CObject)"
    using sch by (simp add: text_column_def)
  show ?case
  proof (cases "needs_escape P S doc key")
    case True
    with Cons.prems(2) have ne: "\<not> esc" and rest: "length (filter (needs_escape P S doc) ks) \<le> (if True then 0 else 1)"
      by (simp_all split: if_splits)
    from True have t: "type = CString \<or> type = CObject" "REGTESCAPETEST (to_str P val)"
      using tc ctext by (simp_all add: needs_escape_def)
    from Cons.IH [OF ks rest, of "out @ ''|'' @ replace_REGTESCAPE (to_str P val)"]
    show ?thesis
      using sch cv ne t True ctext tc by (simp add: encoded_text_def)
  next
    case False
    with Cons.prems(2) have rest: "length (filter (needs_escape P S doc) ks) \<le> (if esc then 0 else 1)"
      by simp
    have enc: "encoded_text P S doc key = to_str P val"
      using False ctext tc by (auto simp add: encoded_text_def needs_escape_def replace_REGTESCAPE_clean)
    have nt: "(type = CString \<or> type = CObject) \<Longrightarrow> \<not> REGTESCAPETEST (to_str P val)"
      using False ctext tc by (simp add: needs_escape_def)
    from Cons.IH [OF ks rest, of "out @ ''|'' @ to_str P val"]
    show ?thesis
      using sch cv False enc nt by auto
  qed
qed

lemma parseData_loop_result:
  "parseData_loop P S line None ks obj key =
     (if key \<in> set ks then
        (case s_schema S key of None \<Rightarrow> obj key
         | Some (type, pos) \<Rightarrow> parse_column P (line_at line 0 = Some ''*'') type (line_at line (pos + 1)))
      else obj key)"
  by (induction ks arbitrary: obj) (auto split: option.splits)

lemma encoded_text_no_bar:
  assumes rep: "representable P S doc" and key: "key \<in> set (s_keys S)"
  shows "CHR ''|'' \<notin> set (encoded_text P S doc key)"
proof -
  from rep key obtain type pos where sch: "s_schema S key = Some (type, pos)"
    by (fastforce simp add: representable_def split: option.splits)
  have digits: "\<And>i. CHR ''|'' \<notin> set (show_int i)"
    using show_int_chars is_digit_simps by fastforce
  show ?thesis
  proof (cases "text_column S key")
    case True
    then show ?thesis by (simp add: encoded_text_def replace_REGTESCAPE_no_bar)
  next
    case False
    from rep key sch have ty: "case type of
          CString \<Rightarrow> (\<exists>s. doc key = Str s)
        | CNumber \<Rightarrow> (\<exists>n. doc key = Number n)
        | CBoolean \<Rightarrow> (\<exists>b. doc key = Boolean b)
        | CDate \<Rightarrow> (\<exists>d. doc key = DateV d) \<or> doc key = Null
        | CObject \<Rightarrow> (\<exists>j. doc key = Obj j \<and> parseJSON P (JSON_stringify j) = Obj j) \<or> doc key = Null"
      by (fastforce simp add: representable_def)
    show ?thesis
    proof (cases type)
      case CNumber
      with ty sch False show ?thesis
        by (auto simp add: encoded_text_def cell_text_def digits)
    next
      case CBoolean
      with ty sch False show ?thesis
        by (auto simp add: encoded_text_def cell_text_def)
    next
      case CDate
      with ty sch False show ?thesis
        by (auto simp add: encoded_text_def cell_text_def digits)
    qed (use sch False in \<open>simp_all add: text_column_def\<close>)
  qed
qed

lemma parse_column_roundtrip:
  assumes rep: "representable P S doc" and key: "key \<in> set (s_keys S)"
    and sch: "s_schema S key = Some (type, pos)"
    and tokens: "esc \<Longrightarrow> text_column S key \<Longrightarrow> \<not> has_token (cell_text P S doc key)"
    and clean: "\<not> esc \<Longrightarrow> \<not> needs_escape P S doc key"
  shows "parse_column P esc type (Some (encoded_text P S doc key)) = doc key"
proof -
  have unesc: "text_column S key \<Longrightarrow>
      (if esc \<and> encoded_text P S doc key \<noteq> [] then replace_REGTUNESCAPE (encoded_text P S doc key)
       else encoded_text P S doc key) = cell_text P S doc key"
  proof (cases esc)
    case True
    assume tc: "text_column S key"
    with tokens True have "replace_REGTUNESCAPE (replace_REGTESCAPE (cell_text P S doc key)) = cell_text P S doc key"
      by (simp add: unescape_escape)
    with tc True show ?thesis
      by (auto simp add: encoded_text_def replace_REGTESCAPE_empty)
  next
    case False
    assume tc: "text_column S key"
    with clean False show ?thesis
      by (simp add: encoded_text_def needs_escape_def replace_REGTESCAPE_clean)
  qed
  from rep key sch have ty: "case type of
        CString \<Rightarrow> (\<exists>s. doc key = Str s)
      | CNumber \<Rightarrow> (\<exists>n. doc key = Number n)
      | CBoolean \<Rightarrow> (\<exists>b. doc key = Boolean b)
      | CDate \<Rightarrow> (\<exists>d. doc key = DateV d) \<or> doc key = Null
      | CObject \<Rightarrow> (\<exists>j. doc key = Obj j \<and> parseJSON P (JSON_stringify j) = Obj j) \<or> doc key = Null"
    by (fastforce simp add: representable_def)
  show ?thesis
  proof (cases type)
    case CString
    with ty obtain s where s: "doc key = Str s" by auto
    with CString sch have "cell_text P S doc key = s" "text_column S key"
      by (simp_all add: cell_text_def text_column_def)
    with unesc CString s show ?thesis by simp
  next
    case CNumber
    with ty obtain n where n: "doc key = Number n" by auto
    with CNumber sch have "encoded_text P S doc key = show_int n"
      by (simp add: encoded_text_def cell_text_def text_column_def)
    with CNumber n show ?thesis by (simp add: to_number_show_int)
  next
    case CBoolean
    with ty obtain b where b: "doc key = Boolean b" by auto
    with CBoolean sch have "encoded_text P S doc key = (if b then ''1'' else ''0'')"
      by (simp add: encoded_text_def cell_text_def text_column_def)
    with CBoolean b show ?thesis by (simp add: BOOLEAN_def)
  next
    case CDate
    with ty consider d where "doc key = DateV d" | "doc key = Null" by auto
    then show ?thesis
    proof cases
      case 1
      with CDate sch have e: "encoded_text P S doc key = show_int d"
        by (simp add: encoded_text_def cell_text_def text_column_def)
      have "\<not> (10 < length (show_int d) \<and> show_int d ! 10 = CHR ''T'')"
        using show_int_chars [of "CHR ''T''" d] is_digit_simps by (auto simp add: in_set_conv_nth)
      with CDate 1 e show ?thesis
        by (auto simp add: to_number_show_int show_int_not_empty)
    next
      case 2
      with CDate sch have "encoded_text P S doc key = []"
        by (simp add: encoded_text_def cell_text_def text_column_def)
      with CDate 2 show ?thesis by simp
    qed
  next
    case CObject
    with ty consider j where "doc key = Obj j" "parseJSON P (JSON_stringify j) = Obj j" | "doc key = Null"
      by auto
    then show ?thesis
    proof cases
      case 1
      with CObject sch have "cell_text P S doc key = JSON_stringify j" "text_column S key"
        by (simp_all add: cell_text_def text_column_def)
      with unesc CObject 1 show ?thesis
        by (simp add: Let_def JSON_stringify_not_empty)
    next
      case 2
      with CObject sch have "encoded_text P S doc key = []"
        by (simp add: encoded_text_def cell_text_def text_column_def replace_REGTESCAPE_simps)
      with CObject 2 show ?thesis by simp
    qed
  qed
qed

lemma line_at_simps:
  "line_at (m # vals) 0 = Some m"
  "pos < length vals \<Longrightarrow> line_at (m # vals) (pos + 1) = Some (vals ! pos)"
  by (simp_all add: line_at_def)

text \<open>
  Where the row comes back.  Let the row be representable in the schema, let at most one
  of its text and object cells hold one of the characters \<open>|\<close>, \<open>\r\<close>, \<open>\n\<close>, and, if one
  does, let no text or object cell hold one of the sequences \<open>%7C\<close>, \<open>%0D\<close>, \<open>%0A\<close>.  Then
  \<open>TP.stringify\<close> yields a line, and \<open>TP.parseData\<close> applied to that line, split at the bars,
  with the keys of the schema yields the row again.
\<close>

lemma table_roundtrip:
  assumes sok: "schema_ok S" and rep: "representable P S doc"
    and one: "length (filter (needs_escape P S doc) (s_keys S)) \<le> 1"
    and tokens: "(\<exists>key\<in>set (s_keys S). needs_escape P S doc key) \<longrightarrow>
       (\<forall>key\<in>set (s_keys S). text_column S key \<longrightarrow> \<not> has_token (cell_text P S doc key))"
  shows "\<exists>row. table_encode P S doc = Inr row \<and> table_decode P S row = doc"
proof -
  let ?keys = "s_keys S"
  let ?esc = "\<exists>key\<in>set ?keys. needs_escape P S doc key"
  define m where "m = (if ?esc then ''*'' else ''+'')"
  define vals where "vals = map (encoded_text P S doc) ?keys"
  define row where "row = m @ concat (map (\<lambda>v. CHR ''|'' # v) vals)"
  have "stringify_loop P S doc ?keys False []
      = Inr (False \<or> ?esc, [] @ concat (map (\<lambda>k. CHR ''|'' # encoded_text P S doc k) ?keys))"
    using one by (intro stringify_loop_ok [OF rep]) simp_all
  then have enc: "table_encode P S doc = Inr row"
    by (simp add: table_encode_def stringify_def comp_def row_def m_def vals_def)
  have "\<forall>v\<in>set vals. CHR ''|'' \<notin> set v"
    using encoded_text_no_bar [OF rep] by (auto simp add: vals_def)
  moreover have "CHR ''|'' \<notin> set m" by (simp add: m_def)
  ultimately have sp: "split (CHR ''|'') row = m # vals" unfolding row_def by (rule split_row [rotated])
  have star: "(line_at (m # vals) 0 = Some ''*'') = ?esc"
    by (simp add: line_at_def m_def)
  have "table_decode P S row key = doc key" for key
  proof (cases "key \<in> set ?keys")
    case False
    with rep have "doc key = Undef" by (simp add: representable_def)
    with False show ?thesis
      by (simp add: table_decode_def parseData_def parseData_loop_result)
  next
    case True
    with sok obtain type pos where sch: "s_schema S key = Some (type, pos)"
      and pos: "pos < length ?keys" "?keys ! pos = key"
      by (auto simp add: schema_ok_def)
    have at: "line_at (m # vals) (pos + 1) = Some (encoded_text P S doc key)"
      using pos by (simp add: line_at_def vals_def)
    have rt: "parse_column P ?esc type (Some (encoded_text P S doc key)) = doc key"
    proof (rule parse_column_roundtrip [OF rep True sch])
      assume ?esc and "text_column S key"
      with tokens True show "\<not> has_token (cell_text P S doc key)" by blast
    next
      assume "\<not> ?esc"
      with True show "\<not> needs_escape P S doc key" by blast
    qed
    have "table_decode P S row key
        = parse_column P (line_at (m # vals) 0 = Some ''*'') type (line_at (m # vals) (pos + 1))"
      using True sch by (simp add: table_decode_def parseData_def sp parseData_loop_result)
    also have "\<dots> = parse_column P ?esc type (Some (encoded_text P S doc key))"
      by (simp only: star at)
    finally show ?thesis using rt by simp
  qed
  then have "table_decode P S row = doc" by (rule ext)
  with enc show ?thesis by blast
qed

lemma demo_schema_simps:
  "s_keys demo_schema = [''a'', ''n'', ''o'', ''d'', ''m'']"
  "s_schema demo_schema ''a'' = Some (CString, 0)"
  "s_schema demo_schema ''n'' = Some (CNumber, 1)"
  "s_schema demo_schema ''o'' = Some (CBoolean, 2)"
  "s_schema demo_schema ''d'' = Some (CDate, 3)"
  "s_schema demo_schema ''m'' = Some (CObject, 4)"
  by (simp_all add: demo_schema_def parseSchema_def)

lemma show_nat_12: "show_nat 12 = ''12''"
  by (simp add: show_nat.simps [of 12] show_nat.simps [of "Suc 0"] digit_char_def)

lemma show_nat_1500: "show_nat 1500 = ''1500''"
  by (simp add: show_nat.simps [of 1500] show_nat.simps [of 150] show_nat.simps [of 15]
      show_nat.simps [of "Suc 0"] digit_char_def)

lemma demo_texts:
  "cell_text demo_text demo_schema demo_row ''a'' = ''a|b''"
  "cell_text demo_text demo_schema demo_row ''n'' = ''-12''"
  "cell_text demo_text demo_schema demo_row ''o'' = ''1''"
  "cell_text demo_text demo_schema demo_row ''d'' = ''1500''"
  \<open>cell_text demo_text demo_schema demo_row ''m'' = ''{"x":"y"}''\<close>
  by (simp_all add: cell_text_def demo_schema_simps demo_row_def show_int_def show_nat_12 show_nat_1500
      json_quote_def json_escape_def)

lemma table_roundtrip_demo:
  \<open>table_encode demo_text demo_schema demo_row = Inr ''*|a%7Cb|-12|1|1500|{"x":"y"}''
   \<and> table_decode demo_text demo_schema ''*|a%7Cb|-12|1|1500|{"x":"y"}'' = demo_row\<close>
proof -
  have h1: "schema_ok demo_schema"
    by (simp add: schema_ok_def demo_schema_simps)
  have h2: "representable demo_text demo_schema demo_row"
    by (auto simp add: representable_def demo_schema_simps demo_row_def demo_text_def plain_text_def
        json_quote_def json_escape_def)
  have n: "needs_escape demo_text demo_schema demo_row ''a''"
    "\<not> needs_escape demo_text demo_schema demo_row ''n''"
    "\<not> needs_escape demo_text demo_schema demo_row ''o''"
    "\<not> needs_escape demo_text demo_schema demo_row ''d''"
    "\<not> needs_escape demo_text demo_schema demo_row ''m''"
    by (simp_all add: needs_escape_def text_column_def demo_schema_simps demo_texts REGTESCAPETEST_def)
  have h3: "length (filter (needs_escape demo_text demo_schema demo_row) (s_keys demo_schema)) \<le> 1"
    by (simp add: demo_schema_simps n)
  have h4: "(\<exists>key\<in>set (s_keys demo_schema). needs_escape demo_text demo_schema demo_row key) \<longrightarrow>
      (\<forall>key\<in>set (s_keys demo_schema). text_column demo_schema key \<longrightarrow>
         \<not> has_token (cell_text demo_text demo_schema demo_row key))"
    by (simp add: demo_schema_simps demo_texts REGTUNESCAPE_def)
  from table_roundtrip [OF h1 h2 h3 h4] obtain row where
    row: "table_encode demo_text demo_schema demo_row = Inr row" "table_decode demo_text demo_schema row = demo_row"
    by blast
  have \<open>table_encode demo_text demo_schema demo_row = Inr ''*|a%7Cb|-12|1|1500|{"x":"y"}''\<close>
    by (simp add: table_encode_def stringify_def demo_schema_simps demo_row_def show_int_def show_nat_12
        show_nat_1500 json_quote_def json_escape_def REGTESCAPETEST_def replace_REGTESCAPE_def regtescape_def)
  with row show ?thesis by simp
qed

text \<open>
  The escapes have no escape of their own: a row whose text cell holds a bar together
  with the text \<open>%7C\<close> is written with its bar escaped, and reading it back turns both
  sequences into bars.
\<close>

lemma table_roundtrip_loses_escape_text:
  "representable plain_text (parseSchema [(''a'', CString)]) ((\<lambda>k. Undef)(''a'' := Str ''%7C|''))
   \<and> table_encode plain_text (parseSchema [(''a'', CString)]) ((\<lambda>k. Undef)(''a'' := Str ''%7C|'')) = Inr ''*|%7C%7C''
   \<and> table_decode plain_text (parseSchema [(''a'', CString)]) ''*|%7C%7C'' ''a'' = Str ''||''"
  by (simp add: representable_def parseSchema_def table_encode_def stringify_def REGTESCAPETEST_def
      replace_REGTESCAPE_def regtescape_def table_decode_def parseData_def split_def line_at_def
      REGTUNESCAPE_def regtescapereverse_def)

text \<open>
  Claim C1 does not hold of the code.  \<open>TP.stringify\<close> tests and escapes a text or object
  cell only as long as no cell has been escaped (\<open>if (!esc && ...)\<close>); once one has, the
  following cells are written as they are.  The row \<open>{a: 'x|y', b: 'p|q'}\<close> of a table with
  two text columns is written as \<open>*|x%7Cy|p|q\<close>: the bar of \<open>b\<close> is not escaped, and
  \<open>TP.parseData\<close> on that line gives \<open>a\<close> back and cuts \<open>b\<close> at its bar.
\<close>

theorem stringify_escapes_first_cell_only:
  "table_encode plain_text (parseSchema [(''a'', CString), (''b'', CString)])
      ((\<lambda>k. Undef)(''a'' := Str ''x|y'', ''b'' := Str ''p|q'')) = Inr ''*|x%7Cy|p|q''
   \<and> table_decode plain_text (parseSchema [(''a'', CString), (''b'', CString)]) ''*|x%7Cy|p|q'' ''a'' = Str ''x|y''
   \<and> table_decode plain_text (parseSchema [(''a'', CString), (''b'', CString)]) ''*|x%7Cy|p|q'' ''b'' = Str ''p''"
  by (simp add: parseSchema_def table_encode_def stringify_def REGTESCAPETEST_def
      replace_REGTESCAPE_def regtescape_def table_decode_def parseData_def split_def line_at_def
      REGTUNESCAPE_def regtescapereverse_def)

text \<open>The row of that run is one the claim speaks of: two texts in two text columns.\<close>

lemma two_bars_representable:
  "representable plain_text (parseSchema [(''a'', CString), (''b'', CString)])
      ((\<lambda>k. Undef)(''a'' := Str ''x|y'', ''b'' := Str ''p|q''))"
  by (simp add: representable_def parseSchema_def)

section \<open>Verification: text operations\<close>


lemma index_of_none: "c \<notin> set k \<Longrightarrow> index_of c k = None"
  by (induction k) auto










section \<open>Verification: one line of the counter file\<close>
















section \<open>Verification: the flush of pending hits\<close>


text \<open>A flush with nothing pending, \<open>self.cache\<close> being \<open>null\<close>, ends in a TypeError.\<close>

lemma save_nothing_pending: "save coerce mmdd None rows = Inl TypeError"
  by (cases rows) (simp_all add: save_def save_line_def flush_def)








lemma sum_key_third: "(''sum'' @ t) ! 2 = CHR ''m''" "2 < length (''sum'' @ t)"
  by simp_all








lemma hits_Some: "calls \<noteq> [] \<Longrightarrow> hits year ident calls c \<noteq> None"
proof (induction calls arbitrary: c rule: rev_induct)
  case Nil
  then show ?case by simp
next
  case (snoc call calls)
  show ?case
    by (simp add: hits_def Let_def empty_def cache_set_def)
qed







section \<open>Verification: tombstoned rows are not read\<close>

lemma tombstone_not_live: "\<not> live (tombstone doc)"
  by (simp add: live_def tombstone_def)

lemma table_lines_pass:
  "table_lines env parse first indexer lines items seen = (items', seen', indexer', stop) \<Longrightarrow>
   \<exists>new. seen' = seen @ new \<and> set new \<subseteq> set lines
     \<and> (\<forall>others. ondocuments env first (parsed parse new @ others) items
            = (if stop then items' else ondocuments env first others items'))"
proof (induction lines arbitrary: indexer items seen)
  case Nil
  then show ?case by (simp add: parsed_def)
next
  case (Cons line lines)
  obtain items1 stop1 where l: "readers_loop env first (parse (split (CHR ''|'') line)) items = (items1, stop1)"
    by (cases "readers_loop env first (parse (split (CHR ''|'') line)) items") auto
  show ?case
  proof (cases stop1)
    case True
    with Cons.prems l have r: "items' = items1" "seen' = seen @ [line]" "stop" by simp_all
    have "\<forall>others. ondocuments env first (parsed parse [line] @ others) items = items'"
      using l True r(1) by (simp add: parsed_def)
    with r show ?thesis by (intro exI [of _ "[line]"]) simp
  next
    case False
    with Cons.prems l
    have "table_lines env parse first (indexer + 2) lines items1 (seen @ [line]) = (items', seen', indexer', stop)"
      by simp
    from Cons.IH [OF this] obtain new where n: "seen' = (seen @ [line]) @ new" "set new \<subseteq> set lines"
      "\<forall>others. ondocuments env first (parsed parse new @ others) items1
            = (if stop then items' else ondocuments env first others items')"
      by blast
    have "\<forall>others. ondocuments env first (parsed parse (line # new) @ others) items
            = (if stop then items' else ondocuments env first others items')"
      using l False n(3) by (simp add: parsed_def)
    with n(1,2) show ?thesis by (intro exI [of _ "line # new"]) auto
  qed
qed

lemma table_batches_pass:
  "table_batches env parse first indexer batches items seen = (items', seen') \<Longrightarrow>
   \<exists>new. seen' = seen @ new \<and> set new \<subseteq> set (concat batches)
     \<and> ondocuments env first (parsed parse new) items = items'"
proof (induction batches arbitrary: indexer items seen)
  case Nil
  then show ?case by (simp add: parsed_def)
next
  case (Cons lines rest)
  define ls where "ls = drop (if indexer \<noteq> 0 then 0 else 1) lines"
  obtain items1 seen1 indexer1 stop1
    where l: "table_lines env parse first indexer ls items seen = (items1, seen1, indexer1, stop1)"
    by (cases "table_lines env parse first indexer ls items seen") auto
  from table_lines_pass [OF l] obtain new1 where n1: "seen1 = seen @ new1" "set new1 \<subseteq> set ls"
    "\<forall>others. ondocuments env first (parsed parse new1 @ others) items
            = (if stop1 then items1 else ondocuments env first others items1)"
    by blast
  have sub: "set ls \<subseteq> set lines" unfolding ls_def by (rule set_drop_subset)
  show ?case
  proof (cases stop1)
    case True
    with Cons.prems l have r: "items' = items1" "seen' = seen1" by (simp_all add: ls_def)
    from n1(3) have "ondocuments env first (parsed parse new1 @ []) items
        = (if stop1 then items1 else ondocuments env first [] items1)"
      by (rule spec)
    with True have "ondocuments env first (parsed parse new1) items = items1"
      by simp
    with r n1(1,2) sub show ?thesis by (intro exI [of _ new1]) auto
  next
    case False
    with Cons.prems l have "table_batches env parse first indexer1 rest items1 seen1 = (items', seen')"
      by (simp add: ls_def)
    from Cons.IH [OF this] obtain new2 where n2: "seen' = seen1 @ new2" "set new2 \<subseteq> set (concat rest)"
      "ondocuments env first (parsed parse new2) items1 = items'"
      by blast
    from n1(3) False have "ondocuments env first (parsed parse new1 @ parsed parse new2) items
        = ondocuments env first (parsed parse new2) items1"
      by simp
    with n2(3) have "ondocuments env first (parsed parse (new1 @ new2)) items = items'"
      by (simp add: parsed_def)
    with n1(1,2) n2(1,2) sub show ?thesis by (intro exI [of _ "new1 @ new2"]) auto
  qed
qed

lemma table_batches3_pass:
  "table_batches3 env parse first indexer batches items seen = (items', seen') \<Longrightarrow>
   \<exists>new. seen' = seen @ new \<and> set new \<subseteq> set (concat batches)
     \<and> ondocuments env first (parsed parse new) items = items'"
proof (induction batches arbitrary: indexer items seen)
  case Nil
  then show ?case by (simp add: parsed_def)
next
  case (Cons lines rest)
  define ls where "ls = record_lines lines"
  obtain items1 seen1 indexer1 stop1
    where l: "table_lines env parse first indexer ls items seen = (items1, seen1, indexer1, stop1)"
    by (cases "table_lines env parse first indexer ls items seen") auto
  from table_lines_pass [OF l] obtain new1 where n1: "seen1 = seen @ new1" "set new1 \<subseteq> set ls"
    "\<forall>others. ondocuments env first (parsed parse new1 @ others) items
            = (if stop1 then items1 else ondocuments env first others items1)"
    by blast
  have sub: "set ls \<subseteq> set lines" unfolding ls_def record_lines_def by simp
  show ?case
  proof (cases stop1)
    case True
    with Cons.prems l have r: "items' = items1" "seen' = seen1" by (simp_all add: ls_def)
    from n1(3) have "ondocuments env first (parsed parse new1 @ []) items
        = (if stop1 then items1 else ondocuments env first [] items1)"
      by (rule spec)
    with True have "ondocuments env first (parsed parse new1) items = items1"
      by simp
    with r n1(1,2) sub show ?thesis by (intro exI [of _ new1]) auto
  next
    case False
    with Cons.prems l have "table_batches3 env parse first indexer1 rest items1 seen1 = (items', seen')"
      by (simp add: ls_def)
    from Cons.IH [OF this] obtain new2 where n2: "seen' = seen1 @ new2" "set new2 \<subseteq> set (concat rest)"
      "ondocuments env first (parsed parse new2) items1 = items'"
      by blast
    from n1(3) False have "ondocuments env first (parsed parse new1 @ parsed parse new2) items
        = ondocuments env first (parsed parse new2) items1"
      by simp
    with n2(3) have "ondocuments env first (parsed parse (new1 @ new2)) items = items'"
      by (simp add: parsed_def)
    with n1(1,2) n2(1,2) sub show ?thesis by (intro exI [of _ "new1 @ new2"]) auto
  qed
qed

lemma session_lines_live:
  assumes "set new \<subseteq> set (concat batches)" and "set (concat batches) \<subseteq> set (filter live file)"
  shows "list_all live new \<and> set new \<subseteq> set file \<and> tombstone doc \<notin> set new"
proof -
  from assms have l: "\<forall>line\<in>set new. live line \<and> line \<in> set file" by auto
  then have "tombstone doc \<notin> set new" using tombstone_not_live [of doc] by blast
  with l show ?thesis by (auto simp add: list_all_iff)
qed

text \<open>
  Claim C4.  Whatever the lines of the table file are (so also after any updates and
  removals, which put the marker \<open>-\<close> in front of a line), and for any readers drained in
  one pass (queries for documents, counts and scalars alike): every line that the forward
  pass and the pass from the end hand to the predicates is a live line of the file, none
  is a line as \<open>TP.$remove\<close> and \<open>TP.$update\<close> leave it behind, and the readers end up as
  after a pass over the documents of exactly these lines, so that no result has anything
  of a tombstoned line in it.
\<close>

theorem tombstoned_lines_not_read:
  assumes "read_session file forward" and "read_session_reverse file backward"
  shows "(case table_reader env parse items forward of
            (items', seen) \<Rightarrow>
              list_all live seen \<and> set seen \<subseteq> set file \<and> tombstone doc \<notin> set seen
              \<and> items' = ondocuments env (first_flag items) (parsed parse seen) items)
       \<and> (case table_reader3 env parse items backward of
            (items', seen) \<Rightarrow>
              list_all live seen \<and> set seen \<subseteq> set file \<and> tombstone doc \<notin> set seen
              \<and> items' = ondocuments env (first_flag items) (parsed parse seen) items)"
proof -
  obtain items1 seen1 where r1: "table_reader env parse items forward = (items1, seen1)"
    by (cases "table_reader env parse items forward") auto
  obtain items2 seen2 where r2: "table_reader3 env parse items backward = (items2, seen2)"
    by (cases "table_reader3 env parse items backward") auto
  from r1 have "table_batches env parse (first_flag items) 0 forward items [] = (items1, seen1)"
    by (simp add: table_reader_def)
  from table_batches_pass [OF this] have p1: "set seen1 \<subseteq> set (concat forward)"
    "ondocuments env (first_flag items) (parsed parse seen1) items = items1"
    by auto
  from r2 have "table_batches3 env parse (first_flag items) 0 backward items [] = (items2, seen2)"
    by (simp add: table_reader3_def)
  from table_batches3_pass [OF this] have p2: "set seen2 \<subseteq> set (concat backward)"
    "ondocuments env (first_flag items) (parsed parse seen2) items = items2"
    by auto
  from assms(1) have f: "set (concat forward) \<subseteq> set (filter live file)"
    by (simp add: read_session_def)
  from assms(2) have b: "set (concat backward) \<subseteq> set (filter live file)"
    by (simp add: read_session_reverse_def)
  from session_lines_live [OF p1(1) f, of doc] session_lines_live [OF p2(1) b, of doc] p1(2) p2(2)
  show ?thesis unfolding r1 r2 by simp
qed

theorem tombstoned_lines_not_read_witness:
  "list_all live (snd (table_reader nat_env length [new_reader new_options (\<lambda>d. Some d)]
      [[''id:number|name:string'', ''+|1|a''], [''*|3|c%7Cd'']]))
   \<and> tombstone ''+|2|b'' \<notin> set (snd (table_reader nat_env length [new_reader new_options (\<lambda>d. Some d)]
      [[''id:number|name:string'', ''+|1|a''], [''*|3|c%7Cd'']]))
   \<and> list_all live (snd (table_reader3 nat_env length [new_reader new_options (\<lambda>d. Some d)]
      [[''*|3|c%7Cd'', ''+|1|a''], [''id:number|name:string'']]))
   \<and> tombstone ''+|2|b'' \<notin> set (snd (table_reader3 nat_env length [new_reader new_options (\<lambda>d. Some d)]
      [[''*|3|c%7Cd'', ''+|1|a''], [''id:number|name:string'']]))"
proof -
  define rows where "rows = [''id:number|name:string'', ''+|1|a'', tombstone ''+|2|b'', ''*|3|c%7Cd'']"
  define forward where "forward = [[''id:number|name:string'', ''+|1|a''], [''*|3|c%7Cd'']]"
  define backward where "backward = [[''*|3|c%7Cd'', ''+|1|a''], [''id:number|name:string'']]"
  define items where "items = [new_reader new_options (\<lambda>d::nat. Some d) :: (nat, nat) reader_item]"
  have f: "read_session rows forward"
    by (simp add: read_session_def rows_def forward_def live_def remchar_def tombstone_def)
  have b: "read_session_reverse rows backward"
    by (simp add: read_session_reverse_def rows_def backward_def live_def remchar_def tombstone_def)
  obtain items1 seen1 where r1: "table_reader nat_env length items forward = (items1, seen1)"
    by (cases "table_reader nat_env length items forward") auto
  obtain items2 seen2 where r2: "table_reader3 nat_env length items backward = (items2, seen2)"
    by (cases "table_reader3 nat_env length items backward") auto
  from tombstoned_lines_not_read [OF f b, where env = nat_env and parse = length and items = items
      and doc = "''+|2|b''"]
  have "list_all live seen1 \<and> tombstone ''+|2|b'' \<notin> set seen1
      \<and> list_all live seen2 \<and> tombstone ''+|2|b'' \<notin> set seen2"
    unfolding r1 r2 by simp
  then have "list_all live (snd (table_reader nat_env length items forward))
      \<and> tombstone ''+|2|b'' \<notin> set (snd (table_reader nat_env length items forward))
      \<and> list_all live (snd (table_reader3 nat_env length items backward))
      \<and> tombstone ''+|2|b'' \<notin> set (snd (table_reader3 nat_env length items backward))"
    unfolding r1 r2 by simp
  then show ?thesis unfolding forward_def backward_def items_def .
qed

text \<open>
  The two passes on that file, where the second row has been removed: both rows that are
  left reach the reader, the header and the removed row do not.
\<close>

lemma table_reader_demo:
  "snd (table_reader nat_env length [new_reader new_options (\<lambda>d. Some d)]
      [[''id:number|name:string'', ''+|1|a''], [''*|3|c%7Cd'']]) = [''+|1|a'', ''*|3|c%7Cd'']
   \<and> snd (table_reader3 nat_env length [new_reader new_options (\<lambda>d. Some d)]
      [[''*|3|c%7Cd'', ''+|1|a''], [''id:number|name:string'']]) = [''*|3|c%7Cd'', ''+|1|a'']"
  by (simp add: table_reader_def table_reader3_def record_lines_def TABLERECORD_def split_def
      first_flag_def new_reader_def new_options_def reader_step_def inlinesort_def sort_set_def
      scalar_case_def Let_def)

end
